theory Spec2Isabelle
  imports Complex_Main "HOL-Library.Sublist"
begin

text \<open>
  A shallow embedding of the two core components of the extension: the change manager
  \<open>FileWriter\<close>, which stages file changes, applies them through the editor's file
  system and undoes them, and the service \<open>AIService\<close>, which dispatches a request to one
  of five providers, maps transport failures to errors and parses the text of the
  response. State is passed explicitly, a thrown error is the left injection of a sum,
  and what lies outside the repository (the file system, the clock, the random number
  generator, the HTTP client) is an input of the functions that use it.
\<close>

section \<open>Change Manager (src/utils/fileWriter.ts)\<close>

subsection \<open>Data model\<close>

datatype EditType = CREATE | REPLACE | INSERT | MODIFY | DELETE

datatype ChangeStatus = PENDING | APPLIED | FAILED | CANCELLED

datatype CommandType = AI_GENERATED | USER_REQUESTED | REFACTOR | FIX | ENHANCEMENT

text \<open>
  The interface \<open>FileChange\<close>. The field \<open>id\<close> is called \<open>changeId\<close> here, since
  \<open>id\<close> is the identity function of HOL. The timestamp is the clock reading at creation.
\<close>

record FileChange =
  changeId :: string
  filePath :: string
  originalContent :: string
  newContent :: string
  changeType :: EditType
  description :: string
  timestamp :: nat
  status :: ChangeStatus
  commandType :: CommandType
  reasoning :: "string option"

text \<open>
  The mutable fields of class \<open>FileWriter\<close>. The logger is left out: it is written to and
  never read. \<open>maxHistorySize\<close> is a private field initialised to 100 and never assigned.
\<close>

record FileWriter =
  changeHistory :: "FileChange list"
  pendingChanges :: "FileChange list"

definition maxHistorySize :: nat where
  "maxHistorySize = 100"

definition newFileWriter :: FileWriter where
  "newFileWriter = \<lparr>changeHistory = [], pendingChanges = []\<rparr>"

text \<open>The thrown JavaScript \<open>Error\<close>, carrying its message.\<close>

datatype error = Error string

subsection \<open>The file-access collaborator\<close>

text \<open>
  The editor's workspace API (\<open>vscode.workspace\<close>) is outside the repository. It is modelled
  as a map from paths to contents together with a schedule of faults: every call of the API
  consumes the head of the schedule and throws when that head is \<open>True\<close>; an exhausted schedule
  means no further fault. Reading or deleting a path that holds no file throws as well.
  Directories are not tracked, so \<open>createDirectory\<close> only consumes its entry of the schedule.
\<close>

record FileSystem =
  files :: "string \<rightharpoonup> string"
  faults :: "bool list"

definition next_fault :: "FileSystem \<Rightarrow> bool \<times> FileSystem" where
  "next_fault fs = (case faults fs of [] \<Rightarrow> (False, fs) | b # bs \<Rightarrow> (b, fs\<lparr>faults := bs\<rparr>))"

text \<open>\<open>openTextDocument(uri)\<close> followed by \<open>getText()\<close>: \<open>None\<close> when the call throws.\<close>

definition openTextDocument :: "string \<Rightarrow> FileSystem \<Rightarrow> string option \<times> FileSystem" where
  "openTextDocument path fs =
     (let (fault, fs') = next_fault fs
      in if fault then (None, fs') else (files fs' path, fs'))"

text \<open>The three calls of \<open>vscode.workspace.fs\<close>; the boolean is \<open>False\<close> when the call throws.\<close>

definition fs_createDirectory :: "FileSystem \<Rightarrow> bool \<times> FileSystem" where
  "fs_createDirectory fs = (let (fault, fs') = next_fault fs in (\<not> fault, fs'))"

definition fs_writeFile :: "string \<Rightarrow> string \<Rightarrow> FileSystem \<Rightarrow> bool \<times> FileSystem" where
  "fs_writeFile path content fs =
     (let (fault, fs') = next_fault fs
      in if fault then (False, fs') else (True, fs'\<lparr>files := (files fs')(path \<mapsto> content)\<rparr>))"

definition fs_delete :: "string \<Rightarrow> FileSystem \<Rightarrow> bool \<times> FileSystem" where
  "fs_delete path fs =
     (let (fault, fs') = next_fault fs
      in if fault \<or> files fs' path = None then (False, fs')
         else (True, fs'\<lparr>files := (files fs')(path := None)\<rparr>))"

subsection \<open>Strings\<close>

text \<open>
  JavaScript strings are modelled as \<open>string\<close>, one character for one code unit, so
  \<open>length\<close> is the \<open>length\<close> property for text whose code units fit in a character.
  \<open>String.prototype.trim\<close> removes the white space and line terminators of ECMAScript
  that fit in one character: tab, line feed, vertical tab, form feed, carriage return,
  space and no-break space.
\<close>

definition isWhiteSpace :: "char \<Rightarrow> bool" where
  "isWhiteSpace c = (of_char c \<in> {9, 10, 11, 12, 13, 32, 160 :: nat})"

definition trim :: "string \<Rightarrow> string" where
  "trim s = rev (dropWhile isWhiteSpace (rev (dropWhile isWhiteSpace s)))"

text \<open>\<open>s.split('\n')\<close>: always at least one piece.\<close>

fun split_lines :: "string \<Rightarrow> string list" where
  "split_lines [] = [[]]"
| "split_lines (c # cs) =
     (if c = CHR 0x0A then [] # split_lines cs
      else (case split_lines cs of l # ls \<Rightarrow> (c # l) # ls | [] \<Rightarrow> [[c]]))"

text \<open>\<open>lines.join('\n')\<close>.\<close>

fun join_lines :: "string list \<Rightarrow> string" where
  "join_lines [] = []"
| "join_lines [l] = l"
| "join_lines (l # ls) = l @ CHR 0x0A # join_lines ls"

subsection \<open>Array helpers\<close>

text \<open>
  \<open>change.status = s\<close> on the object that \<open>find\<close> returned: the first element of the array
  that satisfies the predicate is updated in place.
\<close>

fun update_first :: "('a \<Rightarrow> bool) \<Rightarrow> ('a \<Rightarrow> 'a) \<Rightarrow> 'a list \<Rightarrow> 'a list" where
  "update_first P f [] = []"
| "update_first P f (x # xs) = (if P x then f x # xs else x # update_first P f xs)"

text \<open>\<open>findIndex\<close> followed by \<open>splice(index, 1)\<close> when the index is not -1.\<close>

fun remove_first :: "('a \<Rightarrow> bool) \<Rightarrow> 'a list \<Rightarrow> 'a list" where
  "remove_first P [] = []"
| "remove_first P (x # xs) = (if P x then xs else x # remove_first P xs)"

text \<open>\<open>array.slice(-n)\<close> for a positive \<open>n\<close>: the last \<open>n\<close> elements.\<close>

definition slice_last :: "nat \<Rightarrow> 'a list \<Rightarrow> 'a list" where
  "slice_last n xs = drop (length xs - n) xs"

subsection \<open>Staging\<close>

text \<open>
  \<open>generateChangeId\<close> reads the clock (\<open>Date.now()\<close>, in milliseconds) and the random number
  generator (\<open>Math.random()\<close>, a number from 0 up to but not including 1): both are its
  parameters here. \<open>decimal\<close> is the conversion of a natural number to text that the
  template literal performs.
\<close>

fun decimal :: "nat \<Rightarrow> string" where
  "decimal n =
     (if n < 10 then [''0123456789'' ! n]
      else decimal (n div 10) @ [''0123456789'' ! (n mod 10)])"

declare decimal.simps [simp del]

definition generateChangeId :: "nat \<Rightarrow> real \<Rightarrow> string" where
  "generateChangeId now random =
     ''change_'' @ decimal now @ ''_'' @ decimal (nat \<lfloor>random * 1000\<rfloor>)"

text \<open>
  The staging operations take the identifier that \<open>generateChangeId\<close> returned (\<open>cid\<close>) and
  the time that the timestamp reads (\<open>now\<close>) as parameters.
\<close>

definition createFile ::
  "string \<Rightarrow> nat \<Rightarrow> string \<Rightarrow> string \<Rightarrow> string \<Rightarrow> CommandType \<Rightarrow> string option \<Rightarrow>
   FileWriter \<times> FileSystem \<Rightarrow> FileChange \<times> FileWriter \<times> FileSystem" where
  "createFile cid now path content descr cmd reason = (\<lambda>(w, fs).
     (let change = \<lparr>changeId = cid, filePath = path, originalContent = [], newContent = content,
                    changeType = CREATE, description = descr, timestamp = now,
                    status = PENDING, commandType = cmd, reasoning = reason\<rparr>
      in (change, w\<lparr>pendingChanges := pendingChanges w @ [change]\<rparr>, fs)))"

definition modifyFile ::
  "string \<Rightarrow> nat \<Rightarrow> string \<Rightarrow> string \<Rightarrow> string \<Rightarrow> CommandType \<Rightarrow> string option \<Rightarrow>
   FileWriter \<times> FileSystem \<Rightarrow> FileChange \<times> FileWriter \<times> FileSystem" where
  "modifyFile cid now path content descr cmd reason = (\<lambda>(w, fs).
     (let (doc, fs') = openTextDocument path fs;
          original = (case doc of Some text \<Rightarrow> text | None \<Rightarrow> []);
          change = \<lparr>changeId = cid, filePath = path, originalContent = original,
                    newContent = content, changeType = MODIFY, description = descr,
                    timestamp = now, status = PENDING, commandType = cmd, reasoning = reason\<rparr>
      in (change, w\<lparr>pendingChanges := pendingChanges w @ [change]\<rparr>, fs')))"

definition deleteFile ::
  "string \<Rightarrow> nat \<Rightarrow> string \<Rightarrow> string \<Rightarrow> CommandType \<Rightarrow> string option \<Rightarrow>
   FileWriter \<times> FileSystem \<Rightarrow> FileChange \<times> FileWriter \<times> FileSystem" where
  "deleteFile cid now path descr cmd reason = (\<lambda>(w, fs).
     (let (doc, fs') = openTextDocument path fs;
          original = (case doc of Some text \<Rightarrow> text | None \<Rightarrow> []);
          change = \<lparr>changeId = cid, filePath = path, originalContent = original,
                    newContent = [], changeType = DELETE, description = descr,
                    timestamp = now, status = PENDING, commandType = cmd, reasoning = reason\<rparr>
      in (change, w\<lparr>pendingChanges := pendingChanges w @ [change]\<rparr>, fs')))"

text \<open>
  \<open>createChange\<close> stages a change of any edit type from a \<open>FileEditRequest\<close>, of which the
  fields it reads are kept. \<open>request.originalContent || originalContent\<close> takes the content
  that was read when the request's own is undefined or empty.
\<close>

record FileEditRequest =
  req_filePath :: string
  req_editType :: EditType
  req_newContent :: string
  req_originalContent :: "string option"
  req_description :: string
  req_reasoning :: "string option"
  req_commandType :: CommandType

definition createChange ::
  "string \<Rightarrow> nat \<Rightarrow> FileEditRequest \<Rightarrow>
   FileWriter \<times> FileSystem \<Rightarrow> FileChange \<times> FileWriter \<times> FileSystem" where
  "createChange cid now request = (\<lambda>(w, fs).
     (let (doc, fs') = (if req_editType request \<noteq> CREATE
                        then openTextDocument (req_filePath request) fs else (None, fs));
          original = (case doc of Some text \<Rightarrow> text | None \<Rightarrow> []);
          change = \<lparr>changeId = cid, filePath = req_filePath request,
                    originalContent =
                      (case req_originalContent request of
                         Some text \<Rightarrow> if text \<noteq> [] then text else original
                       | None \<Rightarrow> original),
                    newContent = req_newContent request, changeType = req_editType request,
                    description = req_description request, timestamp = now,
                    status = PENDING, commandType = req_commandType request,
                    reasoning = req_reasoning request\<rparr>
      in (change, w\<lparr>pendingChanges := pendingChanges w @ [change]\<rparr>, fs')))"

subsection \<open>Executing a change\<close>

text \<open>\<open>writeFileContent\<close>: \<open>False\<close> when it throws, in which case nothing is written.\<close>

definition writeFileContent :: "string \<Rightarrow> string \<Rightarrow> FileSystem \<Rightarrow> bool \<times> FileSystem" where
  "writeFileContent path content fs =
     (let (ok, fs') = fs_createDirectory fs
      in if ok then fs_writeFile path content fs' else (False, fs'))"

text \<open>\<open>deleteFilePhysically\<close> catches the failure of the deletion and returns \<open>false\<close>.\<close>

definition deleteFilePhysically :: "string \<Rightarrow> FileSystem \<Rightarrow> bool \<times> FileSystem" where
  "deleteFilePhysically path fs = fs_delete path fs"

text \<open>
  The insertion point of \<open>executeChange\<close> for \<open>INSERT\<close>: the index of the first line that is
  empty after trimming, 0 when there is none.
\<close>

fun first_blank_line :: "string list \<Rightarrow> nat option" where
  "first_blank_line [] = None"
| "first_blank_line (l # ls) =
     (if trim l = [] then Some 0 else map_option Suc (first_blank_line ls))"

definition insert_content :: "string \<Rightarrow> string \<Rightarrow> string" where
  "insert_content original content =
     (let lines = split_lines original;
          insertLine = (case first_blank_line lines of Some i \<Rightarrow> i | None \<Rightarrow> 0)
      in join_lines (take insertLine lines @ [content] @ drop insertLine lines))"

text \<open>
  \<open>executeChange\<close> returns \<open>true\<close> unless a write throws. The result of
  \<open>deleteFilePhysically\<close> is not looked at. For \<open>INSERT\<close> the inner \<open>try\<close> covers the read and
  the write of the spliced text; its \<open>catch\<close> writes the new content alone.
\<close>

definition executeChange :: "FileChange \<Rightarrow> FileSystem \<Rightarrow> bool \<times> FileSystem" where
  "executeChange change fs =
     (case changeType change of
        CREATE \<Rightarrow> writeFileContent (filePath change) (newContent change) fs
      | MODIFY \<Rightarrow> writeFileContent (filePath change) (newContent change) fs
      | REPLACE \<Rightarrow> writeFileContent (filePath change) (newContent change) fs
      | DELETE \<Rightarrow> (let (deleted, fs') = deleteFilePhysically (filePath change) fs in (True, fs'))
      | INSERT \<Rightarrow>
          (let (doc, fs1) = openTextDocument (filePath change) fs
           in case doc of
                None \<Rightarrow> writeFileContent (filePath change) (newContent change) fs1
              | Some original \<Rightarrow>
                  (let (ok, fs2) = writeFileContent (filePath change)
                                     (insert_content original (newContent change)) fs1
                   in if ok then (True, fs2)
                      else writeFileContent (filePath change) (newContent change) fs2)))"

text \<open>\<open>moveToHistory\<close>, with the history trimmed to its last \<open>maxHistorySize\<close> records.\<close>

definition moveToHistory :: "FileChange \<Rightarrow> FileWriter \<Rightarrow> FileWriter" where
  "moveToHistory change w =
     (let pending = remove_first (\<lambda>c. changeId c = changeId change) (pendingChanges w);
          history = changeHistory w @ [change]
      in \<lparr>changeHistory = (if length history > maxHistorySize
                             then slice_last maxHistorySize history else history),
          pendingChanges = pending\<rparr>)"

text \<open>
  \<open>applyChange\<close>. \<open>Inl\<close> is the error thrown to the caller. \<open>executeChange\<close> catches the
  failures of the file system itself and reports them as \<open>false\<close>; the \<open>catch\<close> of
  \<open>applyChange\<close> sets the status to \<open>FAILED\<close> and returns \<open>false\<close> exactly as the \<open>else\<close>
  branch does, so the two are one case here.
\<close>

definition applyChange ::
  "string \<Rightarrow> bool \<Rightarrow> FileWriter \<times> FileSystem \<Rightarrow> error + (bool \<times> FileWriter \<times> FileSystem)" where
  "applyChange cid dryRun = (\<lambda>(w, fs).
     (case find (\<lambda>c. changeId c = cid) (pendingChanges w) of
        None \<Rightarrow> Inl (Error (''Change not found: '' @ cid))
      | Some change \<Rightarrow>
          if dryRun then Inr (True, w, fs)
          else (let (success, fs') = executeChange change fs
                in if success
                   then Inr (True,
                             moveToHistory (change\<lparr>status := APPLIED\<rparr>)
                               (w\<lparr>pendingChanges :=
                                    update_first (\<lambda>c. changeId c = cid)
                                      (\<lambda>c. c\<lparr>status := APPLIED\<rparr>) (pendingChanges w)\<rparr>),
                             fs')
                   else Inr (False,
                             w\<lparr>pendingChanges :=
                                  update_first (\<lambda>c. changeId c = cid)
                                    (\<lambda>c. c\<lparr>status := FAILED\<rparr>) (pendingChanges w)\<rparr>,
                             fs'))))"

text \<open>
  \<open>applyAllChanges\<close>: the loop over the copy of the pending array taken at the call; an error
  thrown by \<open>applyChange\<close> is caught and counted as a failure.
\<close>

fun applyAllLoop ::
  "bool \<Rightarrow> FileChange list \<Rightarrow> nat \<times> nat \<Rightarrow> FileWriter \<times> FileSystem \<Rightarrow>
   (nat \<times> nat) \<times> FileWriter \<times> FileSystem" where
  "applyAllLoop dryRun [] tally s = (tally, s)"
| "applyAllLoop dryRun (change # changes) (successful, failed) s =
     (case applyChange (changeId change) dryRun s of
        Inl e \<Rightarrow> applyAllLoop dryRun changes (successful, failed + 1) s
      | Inr (success, s') \<Rightarrow>
          if success then applyAllLoop dryRun changes (successful + 1, failed) s'
          else applyAllLoop dryRun changes (successful, failed + 1) s')"

definition applyAllChanges ::
  "bool \<Rightarrow> FileWriter \<times> FileSystem \<Rightarrow> (nat \<times> nat) \<times> FileWriter \<times> FileSystem" where
  "applyAllChanges dryRun s = applyAllLoop dryRun (pendingChanges (fst s)) (0, 0) s"

text \<open>
  \<open>cancelChange\<close>: the cancelled object leaves the pending array and is held by neither
  array afterwards.
\<close>

definition cancelChange :: "string \<Rightarrow> FileWriter \<Rightarrow> bool \<times> FileWriter" where
  "cancelChange cid w =
     (case find (\<lambda>c. changeId c = cid) (pendingChanges w) of
        None \<Rightarrow> (False, w)
      | Some change \<Rightarrow>
          (True, w\<lparr>pendingChanges := remove_first (\<lambda>c. changeId c = cid) (pendingChanges w)\<rparr>))"

definition clearPendingChanges :: "FileWriter \<Rightarrow> nat \<times> FileWriter" where
  "clearPendingChanges w = (length (pendingChanges w), w\<lparr>pendingChanges := []\<rparr>)"

text \<open>
  \<open>undoChange\<close>. For \<open>MODIFY\<close> and \<open>DELETE\<close> the variable \<open>success\<close> receives the result of
  \<open>writeFileContent\<close>, which is \<open>undefined\<close>; the falsy value returned is \<open>False\<close> here. The
  other edit types match no \<open>case\<close> of the \<open>switch\<close>.
\<close>

definition undoChange :: "string \<Rightarrow> FileWriter \<times> FileSystem \<Rightarrow> bool \<times> FileSystem" where
  "undoChange cid = (\<lambda>(w, fs).
     (case find (\<lambda>c. changeId c = cid) (changeHistory w) of
        None \<Rightarrow> (False, fs)
      | Some change \<Rightarrow>
          if status change \<noteq> APPLIED then (False, fs)
          else (case changeType change of
                  CREATE \<Rightarrow> deleteFilePhysically (filePath change) fs
                | MODIFY \<Rightarrow>
                    (let (ok, fs') = writeFileContent (filePath change) (originalContent change) fs
                     in (False, fs'))
                | DELETE \<Rightarrow>
                    (let (ok, fs') = writeFileContent (filePath change) (originalContent change) fs
                     in (False, fs'))
                | REPLACE \<Rightarrow> (False, fs)
                | INSERT \<Rightarrow> (False, fs))))"

subsection \<open>Previews\<close>

text \<open>
  \<open>isDestructiveChange\<close>, used for the preview of an edit request. Lengths are naturals, so
  \<open>newLength < originalLength * 0.5\<close> is written without the fraction.
\<close>

definition isDestructiveChange :: "EditType \<Rightarrow> string \<Rightarrow> string \<Rightarrow> bool" where
  "isDestructiveChange editType original content =
     (if editType = DELETE then True
      else if (editType = MODIFY \<or> editType = REPLACE)
              \<and> length original > 0 \<and> 2 * length content < length original then True
      else False)"

text \<open>
  \<open>getChangePreview\<close>. The display strings \<open>title\<close> and \<open>preview\<close> of \<open>ChangePreview\<close> are
  not modelled; every other field is.
\<close>

record ChangePreview =
  pv_id :: string
  pv_description :: string
  pv_filePath :: string
  pv_changeType :: EditType
  isDestructive :: bool
  canUndo :: bool

definition getChangePreview :: "string \<Rightarrow> FileWriter \<Rightarrow> ChangePreview option" where
  "getChangePreview cid w =
     (case find (\<lambda>c. changeId c = cid) (pendingChanges w) of
        None \<Rightarrow> None
      | Some change \<Rightarrow>
          Some \<lparr>pv_id = changeId change, pv_description = description change,
                pv_filePath = filePath change, pv_changeType = changeType change,
                isDestructive =
                  (changeType change = DELETE \<or>
                   (changeType change = MODIFY \<and>
                    length (originalContent change) > length (newContent change) * 2)),
                canUndo = (changeType change \<noteq> CREATE)\<rparr>)"

subsection \<open>Sequences of operations\<close>

datatype Operation =
    OpCreateFile string nat string string string CommandType "string option"
  | OpModifyFile string nat string string string CommandType "string option"
  | OpDeleteFile string nat string string CommandType "string option"
  | OpCreateChange string nat FileEditRequest
  | OpApplyChange string bool
  | OpApplyAllChanges bool
  | OpCancelChange string
  | OpClearPendingChanges
  | OpUndoChange string

text \<open>The effect of one call on the writer and the file system; a thrown error changes nothing.\<close>

fun perform :: "Operation \<Rightarrow> FileWriter \<times> FileSystem \<Rightarrow> FileWriter \<times> FileSystem" where
  "perform (OpCreateFile cid now path content descr cmd reason) s =
     snd (createFile cid now path content descr cmd reason s)"
| "perform (OpModifyFile cid now path content descr cmd reason) s =
     snd (modifyFile cid now path content descr cmd reason s)"
| "perform (OpDeleteFile cid now path descr cmd reason) s =
     snd (deleteFile cid now path descr cmd reason s)"
| "perform (OpCreateChange cid now request) s = snd (createChange cid now request s)"
| "perform (OpApplyChange cid dryRun) s =
     (case applyChange cid dryRun s of Inl e \<Rightarrow> s | Inr (success, s') \<Rightarrow> s')"
| "perform (OpApplyAllChanges dryRun) s = snd (applyAllChanges dryRun s)"
| "perform (OpCancelChange cid) s = (snd (cancelChange cid (fst s)), snd s)"
| "perform OpClearPendingChanges s = (snd (clearPendingChanges (fst s)), snd s)"
| "perform (OpUndoChange cid) s = (fst s, snd (undoChange cid s))"

fun runs :: "Operation list \<Rightarrow> FileWriter \<times> FileSystem \<Rightarrow> FileWriter \<times> FileSystem" where
  "runs [] s = s"
| "runs (operation # rest) s = runs rest (perform operation s)"

text \<open>The identifier that a staging operation gives to its change.\<close>

fun staged_id :: "Operation \<Rightarrow> string option" where
  "staged_id (OpCreateFile cid now path content descr cmd reason) = Some cid"
| "staged_id (OpModifyFile cid now path content descr cmd reason) = Some cid"
| "staged_id (OpDeleteFile cid now path descr cmd reason) = Some cid"
| "staged_id (OpCreateChange cid now request) = Some cid"
| "staged_id operation = None"

definition pending_ids :: "FileWriter \<Rightarrow> string set" where
  "pending_ids w = set (map changeId (pendingChanges w))"

definition history_ids :: "FileWriter \<Rightarrow> string set" where
  "history_ids w = set (map changeId (changeHistory w))"

text \<open>
  The identifiers are unique: every staging operation of the sequence receives an
  identifier that no change held by the writer at that moment has.
\<close>

fun fresh_ids :: "Operation list \<Rightarrow> FileWriter \<times> FileSystem \<Rightarrow> bool" where
  "fresh_ids [] s = True"
| "fresh_ids (operation # rest) s =
     ((case staged_id operation of
         None \<Rightarrow> True
       | Some cid \<Rightarrow> cid \<notin> pending_ids (fst s) \<and> cid \<notin> history_ids (fst s))
      \<and> fresh_ids rest (perform operation s))"

section \<open>Provider Router and Response Parser (src/ai/aiService.ts)\<close>

subsection \<open>Regular expressions of the parser\<close>

datatype AIRequestType = Write | Modify | Explain | Generate

definition backtick :: char where
  "backtick = CHR 0x60"

definition newline :: char where
  "newline = CHR 0x0A"

definition fence :: string where
  "fence = [backtick, backtick, backtick]"

text \<open>The class \<open>\w\<close>: letters, digits and the underscore.\<close>

definition isWordChar :: "char \<Rightarrow> bool" where
  "isWordChar c =
     (let n = (of_char c :: nat)
      in (65 \<le> n \<and> n \<le> 90) \<or> (97 \<le> n \<and> n \<le> 122) \<or> (48 \<le> n \<and> n \<le> 57) \<or> n = 95)"

text \<open>
  The tail \<open>([\s\S]*?)\n?```\<close> of the code-block expression, tried at the start of the
  capture: the lazy group takes the shortest text after which a closing fence follows, with
  or without a line feed before it. The result is the captured text and the input after
  the closing fence; \<open>None\<close> when no closing fence follows.
\<close>

fun closeFence :: "string \<Rightarrow> (string \<times> string) option" where
  "closeFence [] = None"
| "closeFence (c # cs) =
     (if take 4 (c # cs) = newline # fence then Some ([], drop 4 (c # cs))
      else if take 3 (c # cs) = fence then Some ([], drop 3 (c # cs))
      else (case closeFence cs of
              None \<Rightarrow> None
            | Some (captured, rest) \<Rightarrow> Some (c # captured, rest)))"

text \<open>
  One attempt of \<open>/```[\w]*\n?([\s\S]*?)\n?```/\<close> at the head of the input. The greedy
  \<open>[\w]*\<close> and \<open>\n?\<close> take all they can; giving characters back cannot produce a match
  that the greedy choice misses, because a closing fence starts with a backtick or a line
  feed followed by backticks, and the characters given back are word characters or a line
  feed that no fence follows.
\<close>

definition matchAt :: "string \<Rightarrow> (string \<times> string) option" where
  "matchAt xs =
     (if take 3 xs = fence
      then (let afterTag = dropWhile isWordChar (drop 3 xs);
                body = (case afterTag of
                          [] \<Rightarrow> afterTag
                        | c # cs \<Rightarrow> if c = newline then cs else afterTag)
            in closeFence body)
      else None)"

lemma closeFence_shorter:
  "closeFence xs = Some (captured, rest) \<Longrightarrow> length rest < length xs"
  by (induction xs arbitrary: captured) (auto split: if_splits option.splits simp: fence_def)

lemma matchAt_shorter:
  assumes "matchAt xs = Some (captured, rest)"
  shows "length rest < length xs"
proof -
  define afterTag where "afterTag = dropWhile isWordChar (drop 3 xs)"
  define body where
    "body = (case afterTag of [] \<Rightarrow> afterTag | c # cs \<Rightarrow> if c = newline then cs else afterTag)"
  have "length afterTag \<le> length (drop 3 xs)"
    unfolding afterTag_def by (rule length_dropWhile_le)
  then have a: "length afterTag \<le> length xs" by simp
  have "length body \<le> length afterTag"
    unfolding body_def by (cases afterTag) auto
  then have b: "length body \<le> length xs" using a by simp
  have "closeFence body = Some (captured, rest)"
    using assms unfolding matchAt_def body_def afterTag_def
    by (simp add: Let_def split: if_splits)
  then have "length rest < length body" by (rule closeFence_shorter)
  then show ?thesis using b by simp
qed

text \<open>
  The matches of the global expression over the whole input, in order, as both the
  \<open>exec\<close> loop and \<open>replace\<close> find them: the search resumes after each match, and a position
  where the expression does not match is a character outside every block. \<open>Inr\<close> carries the
  captured group of a match, \<open>Inl\<close> a character outside.
\<close>

function scanBlocks :: "string \<Rightarrow> (char + string) list" where
  "scanBlocks xs =
     (case matchAt xs of
        Some (captured, rest) \<Rightarrow> Inr captured # scanBlocks rest
      | None \<Rightarrow> (case xs of [] \<Rightarrow> [] | c # cs \<Rightarrow> Inl c # scanBlocks cs))"
  by pat_completeness auto
termination
  by (relation "measure length") (auto dest: matchAt_shorter)

text \<open>The array \<open>codeBlocks\<close>: every captured group, trimmed.\<close>

definition codeBlocks :: "string \<Rightarrow> string list" where
  "codeBlocks content = [trim captured. Inr captured \<leftarrow> scanBlocks content]"

text \<open>\<open>content.replace(/```[\w]*\n?[\s\S]*?\n?```/g, '')\<close>: the characters outside the matches.\<close>

definition withoutBlocks :: "string \<Rightarrow> string" where
  "withoutBlocks content = [c. Inl c \<leftarrow> scanBlocks content]"

text \<open>
  \<open>codeBlocks.reduce((prev, current) => current.length > prev.length ? current : prev)\<close>
  on a non-empty array: the first element is the initial value.
\<close>

definition largestBlock :: "string list \<Rightarrow> string" where
  "largestBlock blocks =
     (case blocks of
        [] \<Rightarrow> []
      | b # bs \<Rightarrow> foldl (\<lambda>prev current. if length current > length prev then current else prev) b bs)"

subsection \<open>The code heuristic\<close>

text \<open>
  \<open>detectCodeContent\<close> tests eleven expressions on every line. A test asks only whether
  some part of the line matches, so the expressions are read as regular languages and
  decided by derivatives.
\<close>

datatype rx = Null | Eps | Sym "char \<Rightarrow> bool" | Alt rx rx | Cat rx rx | Rep rx

fun nullable :: "rx \<Rightarrow> bool" where
  "nullable Null = False"
| "nullable Eps = True"
| "nullable (Sym P) = False"
| "nullable (Alt r s) = (nullable r \<or> nullable s)"
| "nullable (Cat r s) = (nullable r \<and> nullable s)"
| "nullable (Rep r) = True"

fun deriv :: "char \<Rightarrow> rx \<Rightarrow> rx" where
  "deriv c Null = Null"
| "deriv c Eps = Null"
| "deriv c (Sym P) = (if P c then Eps else Null)"
| "deriv c (Alt r s) = Alt (deriv c r) (deriv c s)"
| "deriv c (Cat r s) =
     (if nullable r then Alt (Cat (deriv c r) s) (deriv c s) else Cat (deriv c r) s)"
| "deriv c (Rep r) = Cat (deriv c r) (Rep r)"

definition accepts :: "rx \<Rightarrow> string \<Rightarrow> bool" where
  "accepts r line = nullable (foldl (\<lambda>r c. deriv c r) r line)"

fun lit :: "string \<Rightarrow> rx" where
  "lit [] = Eps"
| "lit (c # cs) = Cat (Sym (\<lambda>x. x = c)) (lit cs)"

definition anyChar :: rx where
  "anyChar = Sym (\<lambda>c. True)"

text \<open>The dot: any character but a line terminator.\<close>

definition dot :: rx where
  "dot = Sym (\<lambda>c. c \<noteq> newline \<and> c \<noteq> CHR 0x0D)"

definition spaces :: rx where
  "spaces = Cat (Sym isWhiteSpace) (Rep (Sym isWhiteSpace))"

definition word :: rx where
  "word = Cat (Sym isWordChar) (Rep (Sym isWordChar))"

text \<open>\<open>$\<close> under the flag \<open>m\<close>: the end of the input, or a line terminator follows.\<close>

definition lineEnd :: rx where
  "lineEnd = Alt Eps (Cat (Sym (\<lambda>c. c = newline \<or> c = CHR 0x0D)) (Rep anyChar))"

definition codeIndicators :: "rx list" where
  "codeIndicators =
     [Cat (lit ''function'') (Cat spaces (Cat word (Rep anyChar))),
      Cat (lit ''const'') (Cat spaces (Cat word (Cat (Rep (Sym isWhiteSpace)) (Cat (lit ''='') (Rep anyChar))))),
      Cat (lit ''let'') (Cat spaces (Cat word (Cat (Rep (Sym isWhiteSpace)) (Cat (lit ''='') (Rep anyChar))))),
      Cat (lit ''var'') (Cat spaces (Cat word (Cat (Rep (Sym isWhiteSpace)) (Cat (lit ''='') (Rep anyChar))))),
      Cat (lit ''class'') (Cat spaces (Cat word (Rep anyChar))),
      Cat (lit ''import'') (Cat spaces (Cat (Rep dot) (Cat (lit ''from'') (Rep anyChar)))),
      Cat (lit ''export'') (Cat spaces
        (Cat (Alt (Cat (lit ''default'') spaces) Eps) (Rep anyChar))),
      Cat (lit ''{'') (Cat (Rep anyChar) (Cat (lit ''}'') (Rep anyChar))),
      Cat (lit '';'') lineEnd,
      Cat (lit ''/*'') (Cat (Rep anyChar) (Cat (lit ''*/'') (Rep anyChar))),
      Cat (lit ''//'') (Cat (Rep dot) lineEnd)]"

text \<open>\<open>pattern.test(line)\<close>: the match may start anywhere in the line.\<close>

definition test :: "rx \<Rightarrow> string \<Rightarrow> bool" where
  "test pattern line = accepts (Cat (Rep anyChar) pattern) line"

text \<open>\<open>codeLines.length > lines.length * 0.3\<close>, in tenths.\<close>

definition detectCodeContent :: "string \<Rightarrow> bool" where
  "detectCodeContent content =
     (let lines = split_lines content;
          codeLines = filter (\<lambda>line. list_ex (\<lambda>pattern. test pattern line) codeIndicators) lines
      in 10 * length codeLines > 3 * length lines)"

subsection \<open>Numbers\<close>

text \<open>
  A JavaScript number is an IEEE 754 double. It is modelled as the real number it
  denotes, and every literal and every sum or difference is rounded to the nearest double,
  ties to the even significand of 53 bits. \<open>binaryExponent\<close> is the exponent of the
  leading bit of a positive real, \<open>pow2\<close> the power of two with an integer exponent.
  Subnormal numbers and overflow are not modelled: the magnitudes that occur lie between
  \<open>0.1\<close> and \<open>1.2\<close>. Comparisons and \<open>Math.min\<close>, \<open>Math.max\<close> are exact on doubles.
\<close>

fun bitLength :: "nat \<Rightarrow> nat" where
  "bitLength n = (if n = 0 then 0 else Suc (bitLength (n div 2)))"

definition binaryExponent :: "real \<Rightarrow> int" where
  "binaryExponent x =
     (if 1 \<le> x then int (bitLength (nat \<lfloor>x\<rfloor>)) - 1
      else - int (bitLength (nat \<lceil>1 / x\<rceil> - 1)))"

definition pow2 :: "int \<Rightarrow> real" where
  "pow2 e = (if 0 \<le> e then 2 ^ nat e else 1 / 2 ^ nat (- e))"

definition roundHalfEven :: "real \<Rightarrow> int" where
  "roundHalfEven q =
     (let n = \<lfloor>q\<rfloor>; r = q - of_int n
      in if r < 1 / 2 then n else if 1 / 2 < r then n + 1 else if even n then n else n + 1)"

definition toDouble :: "real \<Rightarrow> real" where
  "toDouble x =
     (if x = 0 then 0
      else (let ulp = pow2 (binaryExponent \<bar>x\<bar> - 52)
            in sgn x * of_int (roundHalfEven (\<bar>x\<bar> / ulp)) * ulp))"

text \<open>The operators \<open>+\<close> and \<open>-\<close> on doubles.\<close>

definition dadd :: "real \<Rightarrow> real \<Rightarrow> real" where
  "dadd x y = toDouble (x + y)"

definition dsub :: "real \<Rightarrow> real \<Rightarrow> real" where
  "dsub x y = toDouble (x - y)"

subsection \<open>Confidence and parsing\<close>

text \<open>
  The two entries of the metadata object that the service reads; \<open>None\<close> is an entry that
  is undefined or not a string.
\<close>

record Metadata =
  finishReason :: "string option"
  stopReason :: "string option"

definition calculateConfidence :: "string \<Rightarrow> AIRequestType \<Rightarrow> Metadata option \<Rightarrow> real" where
  "calculateConfidence content type metadata =
     (let confidence = toDouble 0.7;
          confidence = (if length content > 100 then dadd confidence (toDouble 0.1) else confidence);
          confidence = (if length content > 500 then dadd confidence (toDouble 0.1) else confidence);
          confidence = (if type = Explain \<and> length content > 200
                        then dadd confidence (toDouble 0.1) else confidence);
          confidence = (if type \<noteq> Explain \<and> sublist fence content
                        then dadd confidence (toDouble 0.1) else confidence);
          confidence =
            (case metadata of
               None \<Rightarrow> confidence
             | Some m \<Rightarrow>
                 (let confidence =
                        (if finishReason m = Some ''stop'' \<or> stopReason m = Some ''end_turn''
                         then dadd confidence (toDouble 0.1) else confidence)
                  in if finishReason m = Some ''length'' \<or> stopReason m = Some ''max_tokens''
                     then dsub confidence (toDouble 0.2) else confidence))
      in min (max confidence (toDouble 0.1)) (toDouble 1.0))"

text \<open>
  The reference computation in the words of the specification, in the arithmetic of the
  program: the start value, then each adjustment in turn when its condition holds, then
  the clamp. The finish reasons are those that the providers report: a natural stop is
  \<open>stop\<close> or \<open>end_turn\<close>, a truncation is \<open>length\<close> or \<open>max_tokens\<close>.
\<close>

definition naturalStop :: "Metadata option \<Rightarrow> bool" where
  "naturalStop metadata =
     (case metadata of
        None \<Rightarrow> False
      | Some m \<Rightarrow> finishReason m = Some ''stop'' \<or> stopReason m = Some ''end_turn'')"

definition lengthTruncated :: "Metadata option \<Rightarrow> bool" where
  "lengthTruncated metadata =
     (case metadata of
        None \<Rightarrow> False
      | Some m \<Rightarrow> finishReason m = Some ''length'' \<or> stopReason m = Some ''max_tokens'')"

definition clamp :: "real \<Rightarrow> real \<Rightarrow> real \<Rightarrow> real" where
  "clamp lo hi x = (if x < lo then lo else if x > hi then hi else x)"

definition referenceConfidence :: "string \<Rightarrow> AIRequestType \<Rightarrow> Metadata option \<Rightarrow> real" where
  "referenceConfidence content type metadata =
     clamp (toDouble 0.1) (toDouble 1.0)
       (foldl (\<lambda>confidence (applies, step). if applies then step confidence else confidence)
          (toDouble 0.7)
          [(length content > 100, \<lambda>c. dadd c (toDouble 0.1)),
           (length content > 500, \<lambda>c. dadd c (toDouble 0.1)),
           (type = Explain \<and> length content > 200, \<lambda>c. dadd c (toDouble 0.1)),
           (type \<noteq> Explain \<and> sublist fence content, \<lambda>c. dadd c (toDouble 0.1)),
           (naturalStop metadata, \<lambda>c. dadd c (toDouble 0.1)),
           (lengthTruncated metadata, \<lambda>c. dsub c (toDouble 0.2))])"

text \<open>The same computation in exact decimal arithmetic.\<close>

definition exactConfidence :: "string \<Rightarrow> AIRequestType \<Rightarrow> Metadata option \<Rightarrow> real" where
  "exactConfidence content type metadata =
     clamp 0.1 1.0
       (0.7
        + (if length content > 100 then 0.1 else 0)
        + (if length content > 500 then 0.1 else 0)
        + (if type = Explain \<and> length content > 200 then 0.1 else 0)
        + (if type \<noteq> Explain \<and> sublist fence content then 0.1 else 0)
        + (if naturalStop metadata then 0.1 else 0)
        - (if lengthTruncated metadata then 0.2 else 0))"

text \<open>The start value after \<open>k\<close> additions of a tenth.\<close>

definition tenthsAdded :: "nat \<Rightarrow> real" where
  "tenthsAdded k = ((\<lambda>c. dadd c (toDouble 0.1)) ^^ k) (toDouble 0.7)"

record AICodeResponse =
  code :: string
  explanation :: "string option"
  confidence :: real
  metadata :: "Metadata option"

text \<open>
  \<open>parseAIResponse\<close>. The fields \<open>reasoning\<close> and \<open>suggestions\<close> of the response are never
  set. An explanation that is empty after trimming stays undefined.
\<close>

definition parseAIResponse :: "string \<Rightarrow> AIRequestType \<Rightarrow> Metadata option \<Rightarrow> AICodeResponse" where
  "parseAIResponse content type md =
     (let (code, explanation) =
            (if type = Explain then ([], Some (trim content))
             else (let blocks = codeBlocks content
                   in if length blocks > 0
                      then (largestBlock blocks,
                            (let explanationText = trim (withoutBlocks content)
                             in if explanationText \<noteq> [] then Some explanationText else None))
                      else if detectCodeContent content then (trim content, None)
                      else ([], Some (trim content))))
      in \<lparr>code = code, explanation = explanation,
          confidence = calculateConfidence content type md, metadata = md\<rparr>)"

subsection \<open>Dispatch and error mapping\<close>

datatype AIProvider = OPENAI | CLAUDE | OLLAMA | LMSTUDIO | VLLM

record ProviderConfig =
  baseUrl :: "string option"
  apiKey :: "string option"
  model :: string
  maxTokens :: nat
  temperature :: real
  timeout :: nat

text \<open>
  The outcome of \<open>httpClient.post\<close> is an input of the model. A rejection is an Axios error
  with its \<open>code\<close>, the status of its response and its message, another \<open>Error\<close>, or a thrown
  value that is not an \<open>Error\<close>. A resolved body yields the text field that the provider's
  handler reads and the finish reason beside it, each possibly undefined; a body of another
  shape makes the handler's property access throw a \<open>TypeError\<close> with some message.
\<close>

datatype TransportError =
    AxiosError "string option" "nat option" string
  | OtherError string
  | NonError

datatype ResponseBody = Body "string option" "string option" | Malformed string

datatype HttpOutcome = Resolved ResponseBody | Rejected TransportError

text \<open>What a handler throws: an \<open>Error\<close> with its message, or the value that is none.\<close>

datatype thrown = ThrownError string | ThrownOther

text \<open>\<open>throw error\<close> at the end of each handler's \<open>catch\<close>: the caught value as it is.\<close>

fun rethrow :: "TransportError \<Rightarrow> thrown" where
  "rethrow (AxiosError errCode errStatus msg) = ThrownError msg"
| "rethrow (OtherError msg) = ThrownError msg"
| "rethrow NonError = ThrownOther"

text \<open>\<open>text || ''\<close>.\<close>

definition orEmpty :: "string option \<Rightarrow> string" where
  "orEmpty text = (case text of None \<Rightarrow> [] | Some t \<Rightarrow> t)"

text \<open>
  The five handlers. The prompts they build go into the payload of the request only, and
  the outcome of the request is given, so the prompts are left out.
\<close>

definition handleOpenAIRequest ::
  "ProviderConfig \<Rightarrow> AIRequestType \<Rightarrow> HttpOutcome \<Rightarrow> thrown + AICodeResponse" where
  "handleOpenAIRequest config type outcome =
     (case outcome of
        Resolved (Body text reason) \<Rightarrow>
          Inr (parseAIResponse (orEmpty text) type
                 (Some \<lparr>finishReason = reason, stopReason = None\<rparr>))
      | Resolved (Malformed msg) \<Rightarrow> Inl (ThrownError msg)
      | Rejected (AxiosError errCode errStatus msg) \<Rightarrow>
          if errStatus = Some 401 then Inl (ThrownError ''OpenAI API key is invalid or expired'')
          else if errStatus = Some 429 then Inl (ThrownError ''OpenAI API rate limit exceeded'')
          else if errStatus = Some 402 then Inl (ThrownError ''OpenAI API quota exceeded'')
          else Inl (rethrow (AxiosError errCode errStatus msg))
      | Rejected e \<Rightarrow> Inl (rethrow e))"

definition handleClaudeRequest ::
  "ProviderConfig \<Rightarrow> AIRequestType \<Rightarrow> HttpOutcome \<Rightarrow> thrown + AICodeResponse" where
  "handleClaudeRequest config type outcome =
     (case outcome of
        Resolved (Body text reason) \<Rightarrow>
          Inr (parseAIResponse (orEmpty text) type
                 (Some \<lparr>finishReason = None, stopReason = reason\<rparr>))
      | Resolved (Malformed msg) \<Rightarrow> Inl (ThrownError msg)
      | Rejected (AxiosError errCode errStatus msg) \<Rightarrow>
          if errStatus = Some 401 then Inl (ThrownError ''Claude API key is invalid or expired'')
          else if errStatus = Some 429 then Inl (ThrownError ''Claude API rate limit exceeded'')
          else Inl (rethrow (AxiosError errCode errStatus msg))
      | Rejected e \<Rightarrow> Inl (rethrow e))"

definition handleOllamaRequest ::
  "ProviderConfig \<Rightarrow> AIRequestType \<Rightarrow> HttpOutcome \<Rightarrow> thrown + AICodeResponse" where
  "handleOllamaRequest config type outcome =
     (case outcome of
        Resolved (Body text reason) \<Rightarrow>
          Inr (parseAIResponse (orEmpty text) type
                 (Some \<lparr>finishReason = None, stopReason = None\<rparr>))
      | Resolved (Malformed msg) \<Rightarrow> Inl (ThrownError msg)
      | Rejected (AxiosError errCode errStatus msg) \<Rightarrow>
          if errCode = Some ''ECONNREFUSED''
          then Inl (ThrownError
                      ''Ollama server is not running. Please start Ollama and try again.'')
          else if errStatus = Some 404
          then Inl (ThrownError
                      (''Ollama model '' @ [CHR 0x27] @ model config @ [CHR 0x27]
                       @ '' not found. Please pull the model first.''))
          else Inl (rethrow (AxiosError errCode errStatus msg))
      | Rejected e \<Rightarrow> Inl (rethrow e))"

definition handleLMStudioRequest ::
  "ProviderConfig \<Rightarrow> AIRequestType \<Rightarrow> HttpOutcome \<Rightarrow> thrown + AICodeResponse" where
  "handleLMStudioRequest config type outcome =
     (case outcome of
        Resolved (Body text reason) \<Rightarrow>
          Inr (parseAIResponse (orEmpty text) type
                 (Some \<lparr>finishReason = None, stopReason = None\<rparr>))
      | Resolved (Malformed msg) \<Rightarrow> Inl (ThrownError msg)
      | Rejected (AxiosError errCode errStatus msg) \<Rightarrow>
          if errCode = Some ''ECONNREFUSED''
          then Inl (ThrownError
                      ''LM Studio server is not running. Please start LM Studio and load a model.'')
          else Inl (rethrow (AxiosError errCode errStatus msg))
      | Rejected e \<Rightarrow> Inl (rethrow e))"

definition handleVLLMRequest ::
  "ProviderConfig \<Rightarrow> AIRequestType \<Rightarrow> HttpOutcome \<Rightarrow> thrown + AICodeResponse" where
  "handleVLLMRequest config type outcome =
     (case outcome of
        Resolved (Body text reason) \<Rightarrow>
          Inr (parseAIResponse (orEmpty text) type
                 (Some \<lparr>finishReason = None, stopReason = None\<rparr>))
      | Resolved (Malformed msg) \<Rightarrow> Inl (ThrownError msg)
      | Rejected (AxiosError errCode errStatus msg) \<Rightarrow>
          if errCode = Some ''ECONNREFUSED''
          then Inl (ThrownError ''vLLM server is not running. Please start the vLLM server.'')
          else Inl (rethrow (AxiosError errCode errStatus msg))
      | Rejected e \<Rightarrow> Inl (rethrow e))"

text \<open>
  \<open>sendRequest\<close>: the dispatch on the provider and the \<open>catch\<close> that wraps whatever a
  handler throws into a new \<open>Error\<close>. The \<open>default\<close> branch of the \<open>switch\<close> is not reached
  by a value of the enumeration.
\<close>

definition sendRequest ::
  "AIProvider \<Rightarrow> ProviderConfig \<Rightarrow> AIRequestType \<Rightarrow> HttpOutcome \<Rightarrow> error + AICodeResponse" where
  "sendRequest provider config type outcome =
     (case (case provider of
              OPENAI \<Rightarrow> handleOpenAIRequest config type outcome
            | CLAUDE \<Rightarrow> handleClaudeRequest config type outcome
            | OLLAMA \<Rightarrow> handleOllamaRequest config type outcome
            | LMSTUDIO \<Rightarrow> handleLMStudioRequest config type outcome
            | VLLM \<Rightarrow> handleVLLMRequest config type outcome) of
        Inr response \<Rightarrow> Inr response
      | Inl e \<Rightarrow>
          Inl (Error (''AI request failed: ''
                      @ (case e of ThrownError msg \<Rightarrow> msg | ThrownOther \<Rightarrow> ''Unknown error''))))"

definition message :: "error \<Rightarrow> string" where
  "message e = (case e of Error msg \<Rightarrow> msg)"

section \<open>Invariants and scenarios\<close>

text \<open>A file system with the given files and schedule of faults.\<close>

definition disk :: "(string \<times> string) list \<Rightarrow> bool list \<Rightarrow> FileSystem" where
  "disk entries schedule = \<lparr>files = map_of entries, faults = schedule\<rparr>"

text \<open>
  The statuses that the two arrays hold: a pending change is pending or failed, a change
  of the history is applied.
\<close>

definition statuses_ok :: "FileWriter \<Rightarrow> bool" where
  "statuses_ok w \<longleftrightarrow>
     (\<forall>c \<in> set (pendingChanges w). status c = PENDING \<or> status c = FAILED) \<and>
     (\<forall>c \<in> set (changeHistory w). status c = APPLIED)"

text \<open>
  The consistency of the two arrays under unique identifiers: the statuses as above, no
  identifier occurs twice in the two arrays together, and the history is bounded.
\<close>

definition consistent :: "FileWriter \<Rightarrow> bool" where
  "consistent w \<longleftrightarrow>
     (\<forall>c \<in> set (pendingChanges w). status c = PENDING \<or> status c = FAILED) \<and>
     (\<forall>c \<in> set (changeHistory w). status c = APPLIED) \<and>
     distinct (map changeId (pendingChanges w @ changeHistory w)) \<and>
     length (changeHistory w) \<le> maxHistorySize"

text \<open>A creation whose write throws.\<close>

definition failedCreate :: "FileWriter \<times> FileSystem" where
  "failedCreate =
     runs [OpCreateFile ''c1'' 1 ''/t/a.ts'' ''const x=1;'' ''desc'' AI_GENERATED None,
           OpApplyChange ''c1'' False]
       (newFileWriter, disk [] [False, True])"

text \<open>
  A creation that is applied, a modification whose write throws and a deletion that is
  cancelled.
\<close>

definition mixedOps :: "Operation list" where
  "mixedOps =
     [OpCreateFile ''c1'' 1 ''/t/a.ts'' ''const x=1;'' ''desc'' AI_GENERATED None,
      OpApplyChange ''c1'' False,
      OpModifyFile ''c2'' 2 ''/t/a.ts'' ''const x=2;'' ''desc'' AI_GENERATED None,
      OpApplyChange ''c2'' False,
      OpDeleteFile ''c3'' 3 ''/t/a.ts'' ''desc'' USER_REQUESTED None,
      OpCancelChange ''c3'']"

definition mixedDisk :: FileSystem where
  "mixedDisk = disk [] [False, False, False, False, True]"

text \<open>Three staged creations; of the writes that follow, the second throws.\<close>

definition threePending :: "FileWriter \<times> FileSystem" where
  "threePending =
     runs [OpCreateFile ''c1'' 1 ''/t/a.ts'' ''A'' ''first'' AI_GENERATED None,
           OpCreateFile ''c2'' 2 ''/t/b.ts'' ''B'' ''second'' AI_GENERATED None,
           OpCreateFile ''c3'' 3 ''/t/c.ts'' ''C'' ''third'' AI_GENERATED None]
       (newFileWriter, disk [] [False, False, False, True])"

text \<open>A staged replacement that removes nine tenths of the content.\<close>

definition replaceRequest :: FileEditRequest where
  "replaceRequest =
     \<lparr>req_filePath = ''/t/a.ts'', req_editType = REPLACE, req_newContent = ''x'',
      req_originalContent = Some ''0123456789'', req_description = ''shrink'',
      req_reasoning = None, req_commandType = REFACTOR\<rparr>"

definition replacePending :: "FileWriter \<times> FileSystem" where
  "replacePending = runs [OpCreateChange ''r1'' 1 replaceRequest] (newFileWriter, disk [] [])"


text \<open>
  Two creations staged in the same millisecond for which the random number generator
  returned the same number, and the identifier they share applied once and twice.
\<close>

definition collidingId :: string where
  "collidingId = generateChangeId 1700000000000 (1/2)"

definition twoUnderOneId :: "FileWriter \<times> FileSystem" where
  "twoUnderOneId =
     runs [OpCreateFile (generateChangeId 1700000000000 (1/2)) 1700000000000
             ''/t/a.ts'' ''A'' ''first'' AI_GENERATED None,
           OpCreateFile (generateChangeId 1700000000000 (1/2)) 1700000000000
             ''/t/b.ts'' ''B'' ''second'' AI_GENERATED None]
       (newFileWriter, disk [] [])"

definition oneOfTwoApplied :: "FileWriter \<times> FileSystem" where
  "oneOfTwoApplied = perform (OpApplyChange collidingId False) twoUnderOneId"

definition bothApplied :: "FileWriter \<times> FileSystem" where
  "bothApplied = perform (OpApplyChange collidingId False) oneOfTwoApplied"






text \<open>The first of the three staged creations applied, or cancelled, and what is called next.\<close>

definition firstApplied :: "FileWriter \<times> FileSystem" where
  "firstApplied = perform (OpApplyChange ''c1'' False) threePending"

definition firstCancelled :: "FileWriter \<times> FileSystem" where
  "firstCancelled = perform (OpCancelChange ''c1'') threePending"

definition laterOps :: "Operation list" where
  "laterOps = [OpApplyAllChanges False, OpUndoChange ''c1'']"

text \<open>
  A creation applied and then undone while the deletion throws; a creation and a
  modification applied without faults.
\<close>

definition stagedCreateFaulty :: "FileWriter \<times> FileSystem" where
  "stagedCreateFaulty =
     runs [OpCreateFile ''c1'' 1 ''/t/a.ts'' ''X'' ''desc'' AI_GENERATED None]
       (newFileWriter, disk [] [False, False, True])"

definition appliedCreateFaulty :: "FileWriter \<times> FileSystem" where
  "appliedCreateFaulty = runs [OpApplyChange ''c1'' False] stagedCreateFaulty"

definition appliedCreate :: "FileWriter \<times> FileSystem" where
  "appliedCreate =
     runs [OpCreateFile ''c1'' 1 ''/t/a.ts'' ''X'' ''desc'' AI_GENERATED None,
           OpApplyChange ''c1'' False]
       (newFileWriter, disk [(''/t/b.ts'', ''old'')] [])"

definition appliedModify :: "FileWriter \<times> FileSystem" where
  "appliedModify =
     runs [OpModifyFile ''m1'' 2 ''/t/b.ts'' ''Y'' ''desc'' AI_GENERATED None,
           OpApplyChange ''m1'' False]
       (newFileWriter, disk [(''/t/b.ts'', ''old'')] [])"

section \<open>Properties of the Change Manager\<close>

subsection \<open>Array helpers\<close>

lemma find_None_ids:
  "find (\<lambda>c. changeId c = cid) xs = None \<longleftrightarrow> cid \<notin> set (map changeId xs)"
  by (induction xs) auto

lemma map_id_update_first:
  "map changeId (update_first P (\<lambda>c. c\<lparr>status := st\<rparr>) xs) = map changeId xs"
  by (induction xs) auto

lemma set_update_first:
  "x \<in> set (update_first P f xs) \<Longrightarrow> x \<in> set xs \<or> (\<exists>y \<in> set xs. P y \<and> x = f y)"
  by (induction xs) (auto split: if_splits)

lemma set_remove_first: "x \<in> set (remove_first P xs) \<Longrightarrow> x \<in> set xs"
  by (induction xs) (auto split: if_splits)

lemma ids_remove_first:
  "distinct (map changeId xs) \<Longrightarrow>
   set (map changeId (remove_first (\<lambda>c. changeId c = cid) xs)) = set (map changeId xs) - {cid}"
proof (induction xs)
  case Nil
  then show ?case by simp
next
  case (Cons x xs)
  show ?case
  proof (cases "changeId x = cid")
    case True
    then have "cid \<notin> set (map changeId xs)" using Cons.prems by auto
    then show ?thesis using True by auto
  next
    case False
    then show ?thesis using Cons by auto
  qed
qed

lemma distinct_remove_first:
  "distinct (map changeId xs) \<Longrightarrow> distinct (map changeId (remove_first P xs))"
  by (induction xs) (auto split: if_splits dest: set_remove_first)

lemma find_Some_ids:
  "find (\<lambda>c. changeId c = cid) xs = Some c \<Longrightarrow> c \<in> set xs \<and> changeId c = cid"
  by (induction xs) (auto split: if_splits)

lemma remove_updated_first:
  "remove_first (\<lambda>c. changeId c = cid)
     (update_first (\<lambda>c. changeId c = cid) (\<lambda>c. c\<lparr>status := st\<rparr>) xs) =
   remove_first (\<lambda>c. changeId c = cid) xs"
  by (induction xs) auto

lemma consistent_stage:
  assumes "consistent w" "changeId c \<notin> pending_ids w" "changeId c \<notin> history_ids w"
    "status c = PENDING"
  shows "consistent (w\<lparr>pendingChanges := pendingChanges w @ [c]\<rparr>)"
  using assms by (auto simp: consistent_def pending_ids_def history_ids_def)

lemma consistent_failed:
  assumes "consistent w"
  shows "consistent (w\<lparr>pendingChanges :=
            update_first (\<lambda>c. changeId c = cid) (\<lambda>c. c\<lparr>status := FAILED\<rparr>) (pendingChanges w)\<rparr>)"
  using assms by (auto simp: consistent_def map_id_update_first dest!: set_update_first)

lemma slice_last_set: "x \<in> set (slice_last n xs) \<Longrightarrow> x \<in> set xs"
  by (auto simp: slice_last_def dest: in_set_dropD)

lemma distinct_slice_last: "distinct (map f xs) \<Longrightarrow> distinct (map f (slice_last n xs))"
  unfolding slice_last_def drop_map[symmetric] by (rule distinct_drop)

lemma distinct_map_append_sub:
  assumes "distinct (map f (xs @ ys))" "set zs \<subseteq> set ys" "distinct (map f zs)"
  shows "distinct (map f (xs @ zs))"
proof -
  have "f ` set xs \<inter> f ` set ys = {}" and dx: "distinct (map f xs)" using assms(1) by auto
  moreover have "f ` set zs \<subseteq> f ` set ys" using assms(2) by blast
  ultimately have "f ` set xs \<inter> f ` set zs = {}" by blast
  then show ?thesis using assms(3) dx by simp
qed

lemma consistent_moved:
  assumes "consistent w" "find (\<lambda>c. changeId c = cid) (pendingChanges w) = Some change"
  shows "consistent (moveToHistory (change\<lparr>status := APPLIED\<rparr>)
            (w\<lparr>pendingChanges :=
                 update_first (\<lambda>c. changeId c = cid) (\<lambda>c. c\<lparr>status := APPLIED\<rparr>) (pendingChanges w)\<rparr>))"
proof -
  let ?P = "\<lambda>c. changeId c = cid"
  from assms(2) have ch: "change \<in> set (pendingChanges w)" "changeId change = cid"
    using find_Some_ids by blast+
  have dp: "distinct (map changeId (pendingChanges w))"
    and dh: "distinct (map changeId (changeHistory w))"
    and disj: "set (map changeId (pendingChanges w)) \<inter> set (map changeId (changeHistory w)) = {}"
    using assms(1) by (auto simp: consistent_def)
  let ?pending = "remove_first ?P (pendingChanges w)"
  let ?history = "changeHistory w @ [change\<lparr>status := APPLIED\<rparr>]"
  have rem: "remove_first ?P (update_first ?P (\<lambda>c. c\<lparr>status := APPLIED\<rparr>) (pendingChanges w)) = ?pending"
    by (rule remove_updated_first)
  have ids: "set (map changeId ?pending) = set (map changeId (pendingChanges w)) - {cid}"
    using dp by (rule ids_remove_first)
  have st_p: "\<forall>c \<in> set ?pending. status c = PENDING \<or> status c = FAILED"
    using assms(1) by (auto simp: consistent_def dest: set_remove_first)
  have st_h: "\<forall>c \<in> set ?history. status c = APPLIED"
    using assms(1) by (auto simp: consistent_def)
  have cid_h: "cid \<notin> set (map changeId (changeHistory w))"
    using ch disj by force
  have d_all: "distinct (map changeId (?pending @ ?history))"
    using dp dh disj ids cid_h ch distinct_remove_first[OF dp, of ?P] by auto
  let ?h' = "if length ?history > maxHistorySize then slice_last maxHistorySize ?history else ?history"
  have h_sub: "set ?h' \<subseteq> set ?history" by (auto dest: slice_last_set)
  have h_len: "length ?h' \<le> maxHistorySize" by (auto simp: slice_last_def)
  have "distinct (map changeId ?history)" using d_all by simp
  then have h_dist: "distinct (map changeId ?h')"
    using distinct_slice_last[of changeId ?history maxHistorySize]
    by (cases "length ?history > maxHistorySize") (simp_all only: if_True if_False)
  have "distinct (map changeId (?pending @ ?h'))"
    using d_all h_sub h_dist by (rule distinct_map_append_sub)
  moreover have "\<forall>c \<in> set ?h'. status c = APPLIED" using st_h h_sub by blast
  ultimately show ?thesis
    using st_p h_len ch unfolding consistent_def moveToHistory_def rem
    by (simp add: Let_def rem)
qed

lemma consistent_applyChange:
  assumes "consistent w" "applyChange cid dryRun (w, fs) = Inr (ok, w', fs')"
  shows "consistent w'"
  using assms consistent_moved consistent_failed
  by (auto simp: applyChange_def split: option.splits if_splits prod.splits)

lemma consistent_applyAllLoop:
  assumes "consistent (fst s)"
  shows "consistent (fst (snd (applyAllLoop dryRun changes tally s)))"
  using assms
proof (induction changes arbitrary: tally s)
  case Nil
  then show ?case by simp
next
  case (Cons change changes)
  obtain successful failed where t: "tally = (successful, failed)" by (cases tally)
  show ?case
  proof (cases "applyChange (changeId change) dryRun s")
    case (Inl e)
    then show ?thesis using Cons t by simp
  next
    case (Inr r)
    obtain ok w' fs' where r: "r = (ok, w', fs')" by (cases r)
    have "consistent w'" using consistent_applyChange[of "fst s" "changeId change" dryRun "snd s"] Cons.prems Inr r by simp
    then show ?thesis using Cons.IH[of "(w', fs')"] Inr r t by simp
  qed
qed

lemma consistent_removed:
  assumes "consistent w"
  shows "consistent (w\<lparr>pendingChanges := remove_first P (pendingChanges w)\<rparr>)"
proof -
  have sub: "set (remove_first P (pendingChanges w)) \<subseteq> set (pendingChanges w)"
    by (auto dest: set_remove_first)
  have "distinct (map changeId (remove_first P (pendingChanges w)))"
    using assms by (simp add: consistent_def distinct_remove_first)
  then have "distinct (map changeId (remove_first P (pendingChanges w) @ changeHistory w))"
    using assms sub by (fastforce simp: consistent_def)
  then show ?thesis using assms sub by (auto simp: consistent_def)
qed

lemma consistent_cancel: "consistent w \<Longrightarrow> consistent (snd (cancelChange cid w))"
  by (simp add: cancelChange_def consistent_removed split: option.splits)

lemma consistent_clear: "consistent w \<Longrightarrow> consistent (snd (clearPendingChanges w))"
  by (simp add: clearPendingChanges_def consistent_def)

lemma stage_fst:
  "fst (snd (createFile cid now path content descr cmd reason (w, fs))) =
     w\<lparr>pendingChanges := pendingChanges w @ [fst (createFile cid now path content descr cmd reason (w, fs))]\<rparr>"
  "fst (snd (modifyFile cid now path content descr cmd reason (w, fs))) =
     w\<lparr>pendingChanges := pendingChanges w @ [fst (modifyFile cid now path content descr cmd reason (w, fs))]\<rparr>"
  "fst (snd (deleteFile cid now path descr cmd reason (w, fs))) =
     w\<lparr>pendingChanges := pendingChanges w @ [fst (deleteFile cid now path descr cmd reason (w, fs))]\<rparr>"
  "fst (snd (createChange cid now request (w, fs))) =
     w\<lparr>pendingChanges := pendingChanges w @ [fst (createChange cid now request (w, fs))]\<rparr>"
  by (simp_all add: createFile_def modifyFile_def deleteFile_def createChange_def Let_def
        split: prod.splits)

lemma stage_change:
  "changeId (fst (createFile cid now path content descr cmd reason s)) = cid \<and>
   status (fst (createFile cid now path content descr cmd reason s)) = PENDING"
  "changeId (fst (modifyFile cid now path content descr cmd reason s)) = cid \<and>
   status (fst (modifyFile cid now path content descr cmd reason s)) = PENDING"
  "changeId (fst (deleteFile cid now path descr cmd reason s)) = cid \<and>
   status (fst (deleteFile cid now path descr cmd reason s)) = PENDING"
  "changeId (fst (createChange cid now request s)) = cid \<and>
   status (fst (createChange cid now request s)) = PENDING"
  by (simp_all add: createFile_def modifyFile_def deleteFile_def createChange_def Let_def
        split: prod.splits)

lemma consistent_perform:
  assumes "consistent (fst s)"
    and "case staged_id operation of None \<Rightarrow> True
         | Some cid \<Rightarrow> cid \<notin> pending_ids (fst s) \<and> cid \<notin> history_ids (fst s)"
  shows "consistent (fst (perform operation s))"
proof (cases operation)
  case (OpCreateFile cid now path content descr cmd reason)
  then show ?thesis using assms stage_fst(1)[of cid now path content descr cmd reason "fst s" "snd s"]
      stage_change(1)[of cid now path content descr cmd reason s]
    by (simp add: consistent_stage)
next
  case (OpModifyFile cid now path content descr cmd reason)
  then show ?thesis using assms stage_fst(2)[of cid now path content descr cmd reason "fst s" "snd s"]
      stage_change(2)[of cid now path content descr cmd reason s]
    by (simp add: consistent_stage)
next
  case (OpDeleteFile cid now path descr cmd reason)
  then show ?thesis using assms stage_fst(3)[of cid now path descr cmd reason "fst s" "snd s"]
      stage_change(3)[of cid now path descr cmd reason s]
    by (simp add: consistent_stage)
next
  case (OpCreateChange cid now request)
  then show ?thesis using assms stage_fst(4)[of cid now request "fst s" "snd s"]
      stage_change(4)[of cid now request s]
    by (simp add: consistent_stage)
next
  case (OpApplyChange cid dryRun)
  show ?thesis
  proof (cases "applyChange cid dryRun s")
    case (Inl e)
    then show ?thesis using assms OpApplyChange by simp
  next
    case (Inr r)
    obtain ok w' fs' where r: "r = (ok, w', fs')" by (cases r)
    have "consistent w'"
      using consistent_applyChange[of "fst s" cid dryRun "snd s" ok w' fs'] assms(1) Inr r by simp
    then show ?thesis using OpApplyChange Inr r by simp
  qed
next
  case (OpApplyAllChanges dryRun)
  then show ?thesis using assms(1) by (simp add: applyAllChanges_def consistent_applyAllLoop)
next
  case (OpCancelChange cid)
  then show ?thesis using assms(1) by (simp add: consistent_cancel)
next
  case OpClearPendingChanges
  then show ?thesis using assms(1) by (simp add: consistent_clear)
next
  case (OpUndoChange cid)
  then show ?thesis using assms(1) by simp
qed

lemma consistent_runs:
  "consistent (fst s) \<Longrightarrow> fresh_ids ops s \<Longrightarrow> consistent (fst (runs ops s))"
proof (induction ops arbitrary: s)
  case Nil
  then show ?case by simp
next
  case (Cons operation ops)
  then have "consistent (fst (perform operation s))"
    using consistent_perform[of s operation] by simp
  then show ?case using Cons by simp
qed

lemma consistent_new: "consistent newFileWriter"
  by (simp add: consistent_def newFileWriter_def)

subsection \<open>Statuses, whatever the identifiers\<close>

lemma statuses_stage:
  "statuses_ok w \<Longrightarrow> status c = PENDING \<Longrightarrow>
   statuses_ok (w\<lparr>pendingChanges := pendingChanges w @ [c]\<rparr>)"
  by (auto simp: statuses_ok_def)

lemma statuses_failed:
  "statuses_ok w \<Longrightarrow>
   statuses_ok (w\<lparr>pendingChanges :=
      update_first P (\<lambda>c. c\<lparr>status := FAILED\<rparr>) (pendingChanges w)\<rparr>)"
  by (auto simp: statuses_ok_def dest!: set_update_first)

lemma statuses_moved:
  assumes "statuses_ok w" "changeId change = cid"
  shows "statuses_ok (moveToHistory (change\<lparr>status := APPLIED\<rparr>)
            (w\<lparr>pendingChanges :=
                 update_first (\<lambda>c. changeId c = cid) (\<lambda>c. c\<lparr>status := APPLIED\<rparr>)
                   (pendingChanges w)\<rparr>))"
proof -
  let ?history = "changeHistory w @ [change\<lparr>status := APPLIED\<rparr>]"
  have p: "\<forall>c \<in> set (remove_first (\<lambda>c. changeId c = cid) (pendingChanges w)).
             status c = PENDING \<or> status c = FAILED"
    using assms(1) by (auto simp: statuses_ok_def dest: set_remove_first)
  have h: "\<forall>c \<in> set ?history. status c = APPLIED"
    using assms(1) by (auto simp: statuses_ok_def)
  have "\<forall>c \<in> set (slice_last maxHistorySize ?history). status c = APPLIED"
  proof
    fix c assume "c \<in> set (slice_last maxHistorySize ?history)"
    then have "c \<in> set ?history" by (rule slice_last_set)
    then show "status c = APPLIED" using h by blast
  qed
  then show ?thesis
    using p h assms(2)
    by (simp add: statuses_ok_def moveToHistory_def Let_def remove_updated_first)
qed

lemma statuses_applyChange:
  assumes "statuses_ok w" "applyChange cid dryRun (w, fs) = Inr (ok, w', fs')"
  shows "statuses_ok w'"
proof -
  obtain change where f: "find (\<lambda>c. changeId c = cid) (pendingChanges w) = Some change"
    using assms(2) by (auto simp: applyChange_def split: option.splits)
  then have "changeId change = cid" using find_Some_ids by blast
  then show ?thesis
    using assms f statuses_moved[of w change cid] statuses_failed[of w "\<lambda>c. changeId c = cid"]
    by (auto simp: applyChange_def split: if_splits prod.splits)
qed

lemma statuses_applyAllLoop:
  assumes "statuses_ok (fst s)"
  shows "statuses_ok (fst (snd (applyAllLoop dryRun changes tally s)))"
  using assms
proof (induction changes arbitrary: tally s)
  case Nil
  then show ?case by simp
next
  case (Cons change changes)
  obtain successful failed where t: "tally = (successful, failed)" by (cases tally)
  show ?case
  proof (cases "applyChange (changeId change) dryRun s")
    case (Inl e)
    then show ?thesis using Cons t by simp
  next
    case (Inr r)
    obtain ok w' fs' where r: "r = (ok, w', fs')" by (cases r)
    have "statuses_ok w'"
      using statuses_applyChange[of "fst s" "changeId change" dryRun "snd s"] Cons.prems Inr r
      by simp
    then show ?thesis using Cons.IH[of "(w', fs')"] Inr r t by simp
  qed
qed

lemma statuses_perform:
  assumes "statuses_ok (fst s)"
  shows "statuses_ok (fst (perform operation s))"
proof (cases operation)
  case (OpCreateFile cid now path content descr cmd reason)
  then show ?thesis
    using assms stage_fst(1)[of cid now path content descr cmd reason "fst s" "snd s"]
      stage_change(1)[of cid now path content descr cmd reason s]
    by (simp add: statuses_stage)
next
  case (OpModifyFile cid now path content descr cmd reason)
  then show ?thesis
    using assms stage_fst(2)[of cid now path content descr cmd reason "fst s" "snd s"]
      stage_change(2)[of cid now path content descr cmd reason s]
    by (simp add: statuses_stage)
next
  case (OpDeleteFile cid now path descr cmd reason)
  then show ?thesis
    using assms stage_fst(3)[of cid now path descr cmd reason "fst s" "snd s"]
      stage_change(3)[of cid now path descr cmd reason s]
    by (simp add: statuses_stage)
next
  case (OpCreateChange cid now request)
  then show ?thesis
    using assms stage_fst(4)[of cid now request "fst s" "snd s"]
      stage_change(4)[of cid now request s]
    by (simp add: statuses_stage)
next
  case (OpApplyChange cid dryRun)
  show ?thesis
  proof (cases "applyChange cid dryRun s")
    case (Inl e)
    then show ?thesis using assms OpApplyChange by simp
  next
    case (Inr r)
    obtain ok w' fs' where r: "r = (ok, w', fs')" by (cases r)
    have "statuses_ok w'"
      using statuses_applyChange[of "fst s" cid dryRun "snd s" ok w' fs'] assms Inr r by simp
    then show ?thesis using OpApplyChange Inr r by simp
  qed
next
  case (OpApplyAllChanges dryRun)
  then show ?thesis using assms by (simp add: applyAllChanges_def statuses_applyAllLoop)
next
  case (OpCancelChange cid)
  then show ?thesis
    using assms
    by (auto simp: cancelChange_def statuses_ok_def split: option.splits dest: set_remove_first)
next
  case OpClearPendingChanges
  then show ?thesis using assms by (simp add: clearPendingChanges_def statuses_ok_def)
next
  case (OpUndoChange cid)
  then show ?thesis using assms by simp
qed

lemma statuses_runs: "statuses_ok (fst s) \<Longrightarrow> statuses_ok (fst (runs ops s))"
  by (induction ops arbitrary: s) (simp_all add: statuses_perform)

lemma last_in_slice: "0 < n \<Longrightarrow> x \<in> set (slice_last n (xs @ [x]))"
  by (auto simp: slice_last_def)

lemma applied_in_history:
  assumes "applyChange cid False (w, fs) = Inr (True, s')"
  shows "\<exists>c \<in> set (changeHistory (fst s')). changeId c = cid \<and> status c = APPLIED"
proof -
  obtain change where f: "find (\<lambda>c. changeId c = cid) (pendingChanges w) = Some change"
    using assms by (auto simp: applyChange_def split: option.splits)
  then have cid: "changeId change = cid" using find_Some_ids by blast
  let ?w1 = "w\<lparr>pendingChanges := update_first (\<lambda>c. changeId c = cid)
                 (\<lambda>c. c\<lparr>status := APPLIED\<rparr>) (pendingChanges w)\<rparr>"
  have s': "fst s' = moveToHistory (change\<lparr>status := APPLIED\<rparr>) ?w1"
    using assms f by (auto simp: applyChange_def split: prod.splits if_splits)
  have "change\<lparr>status := APPLIED\<rparr> \<in> set (changeHistory (fst s'))"
    unfolding s'
    using last_in_slice[of maxHistorySize "change\<lparr>status := APPLIED\<rparr>" "changeHistory w"]
    by (simp add: moveToHistory_def Let_def maxHistorySize_def)
  moreover have "changeId (change\<lparr>status := APPLIED\<rparr>) = cid \<and>
      status (change\<lparr>status := APPLIED\<rparr>) = APPLIED"
    using cid by simp
  ultimately show ?thesis by blast
qed

subsection \<open>Evaluation of the scenarios\<close>

lemmas scenario_defs = failedCreate_def mixedOps_def mixedDisk_def threePending_def
  replacePending_def replaceRequest_def disk_def newFileWriter_def

lemmas roundtrip_defs = stagedCreateFaulty_def appliedCreateFaulty_def appliedCreate_def
  appliedModify_def

lemmas op_defs = createFile_def modifyFile_def deleteFile_def createChange_def applyChange_def
  executeChange_def writeFileContent_def fs_createDirectory_def fs_writeFile_def fs_delete_def
  next_fault_def openTextDocument_def moveToHistory_def maxHistorySize_def slice_last_def
  cancelChange_def undoChange_def deleteFilePhysically_def applyAllChanges_def
  pending_ids_def history_ids_def getChangePreview_def isDestructiveChange_def Let_def

subsection \<open>Pending and history\<close>

text \<open>
  Claim C1, as stated, fails: a change whose write throws gets the status \<open>FAILED\<close> and
  stays in the pending array; nothing moves it to the history. Here a creation is staged
  and applied while the write throws.
\<close>

theorem failed_change_stays_pending:
  "map status (pendingChanges (fst failedCreate)) = [FAILED] \<and>
   changeHistory (fst failedCreate) = []"
  by (simp add: scenario_defs op_defs)

text \<open>
  Claim C1, amended: after every sequence of staging operations, \<open>applyChange\<close>,
  \<open>applyAllChanges\<close>, \<open>cancelChange\<close>, \<open>clearPendingChanges\<close> and \<open>undoChange\<close> on a new
  writer, every change in the pending array has the status \<open>PENDING\<close> or \<open>FAILED\<close>, every
  change in the history has the status \<open>APPLIED\<close>, and no change is in both arrays; when
  every staged change received an identifier that the writer did not hold at that moment,
  no identifier is in both arrays either. A change that an \<open>applyChange\<close> then applies is
  in the history with the status \<open>APPLIED\<close> afterwards.
\<close>

theorem pending_history_invariant:
  "(\<forall>c \<in> set (pendingChanges (fst (runs ops (newFileWriter, fs)))).
       status c = PENDING \<or> status c = FAILED)
   \<and> (\<forall>c \<in> set (changeHistory (fst (runs ops (newFileWriter, fs)))). status c = APPLIED)
   \<and> set (pendingChanges (fst (runs ops (newFileWriter, fs))))
       \<inter> set (changeHistory (fst (runs ops (newFileWriter, fs)))) = {}
   \<and> (fresh_ids ops (newFileWriter, fs) \<longrightarrow>
        pending_ids (fst (runs ops (newFileWriter, fs)))
          \<inter> history_ids (fst (runs ops (newFileWriter, fs))) = {})
   \<and> (applyChange cid False (runs ops (newFileWriter, fs)) = Inr (True, s') \<longrightarrow>
        (\<exists>c \<in> set (changeHistory (fst s')). changeId c = cid \<and> status c = APPLIED))"
proof -
  have m: "\<exists>c \<in> set (changeHistory (fst s')). changeId c = cid \<and> status c = APPLIED"
    if "applyChange cid False (runs ops (newFileWriter, fs)) = Inr (True, s')"
    using applied_in_history[of cid "fst (runs ops (newFileWriter, fs))"
        "snd (runs ops (newFileWriter, fs))" s'] that by simp
  have "statuses_ok newFileWriter" by (simp add: statuses_ok_def newFileWriter_def)
  then have s: "statuses_ok (fst (runs ops (newFileWriter, fs)))"
    using statuses_runs[of "(newFileWriter, fs)" ops] by simp
  have i: "pending_ids (fst (runs ops (newFileWriter, fs)))
          \<inter> history_ids (fst (runs ops (newFileWriter, fs))) = {}"
    if "fresh_ids ops (newFileWriter, fs)"
  proof -
    have "consistent (fst (runs ops (newFileWriter, fs)))"
      using consistent_runs[of "(newFileWriter, fs)" ops] that consistent_new by simp
    then show ?thesis by (auto simp: consistent_def pending_ids_def history_ids_def)
  qed
  have d: "set (pendingChanges (fst (runs ops (newFileWriter, fs))))
       \<inter> set (changeHistory (fst (runs ops (newFileWriter, fs)))) = {}"
    using s by (fastforce simp: statuses_ok_def)
  show ?thesis using s i d m by (simp add: statuses_ok_def)
qed

theorem pending_history_invariant_witness:
  "fresh_ids mixedOps (newFileWriter, mixedDisk) \<and>
   map status (pendingChanges (fst (runs mixedOps (newFileWriter, mixedDisk)))) = [FAILED] \<and>
   map status (changeHistory (fst (runs mixedOps (newFileWriter, mixedDisk)))) = [APPLIED] \<and>
   set (pendingChanges (fst (runs mixedOps (newFileWriter, mixedDisk))))
     \<inter> set (changeHistory (fst (runs mixedOps (newFileWriter, mixedDisk)))) = {} \<and>
   pending_ids (fst (runs mixedOps (newFileWriter, mixedDisk)))
     \<inter> history_ids (fst (runs mixedOps (newFileWriter, mixedDisk))) = {}"
proof -
  have h: "fresh_ids mixedOps (newFileWriter, mixedDisk)"
    by (simp add: scenario_defs op_defs)
  have r: "map status (pendingChanges (fst (runs mixedOps (newFileWriter, mixedDisk)))) = [FAILED] \<and>
      map status (changeHistory (fst (runs mixedOps (newFileWriter, mixedDisk)))) = [APPLIED]"
    by (simp add: scenario_defs op_defs)
  show ?thesis using h r pending_history_invariant[of mixedOps mixedDisk] by blast
qed

subsection \<open>Previews\<close>

text \<open>
  Claim C9: \<open>getChangePreview\<close> reports a pending change as destructive exactly when it
  is a deletion, or a modification whose new content is shorter than half the original;
  its test names \<open>MODIFY\<close> alone. So a staged replacement that keeps one character of ten
  is reported as not destructive, while \<open>isDestructiveChange\<close>, which tests \<open>MODIFY\<close> and
  \<open>REPLACE\<close>, answers \<open>true\<close> on the same contents.
\<close>

theorem getChangePreview_replace_not_destructive:
  "map_option isDestructive (getChangePreview cid w)
     = map_option
         (\<lambda>c. changeType c = DELETE \<or>
              (changeType c = MODIFY \<and> 2 * length (newContent c) < length (originalContent c)))
         (find (\<lambda>c. changeId c = cid) (pendingChanges w))
   \<and> map_option changeType (find (\<lambda>c. changeId c = ''r1'') (pendingChanges (fst replacePending)))
       = Some REPLACE
   \<and> map_option isDestructive (getChangePreview ''r1'' (fst replacePending)) = Some False
   \<and> isDestructiveChange REPLACE ''0123456789'' ''x'' = True"
proof (intro conjI)
  show "map_option isDestructive (getChangePreview cid w)
     = map_option
         (\<lambda>c. changeType c = DELETE \<or>
              (changeType c = MODIFY \<and> 2 * length (newContent c) < length (originalContent c)))
         (find (\<lambda>c. changeId c = cid) (pendingChanges w))"
    by (cases "find (\<lambda>c. changeId c = cid) (pendingChanges w)")
       (simp_all add: getChangePreview_def mult.commute)
qed (simp_all add: scenario_defs op_defs)

subsection \<open>Unknown identifiers\<close>

text \<open>
  Claim C6: for every identifier that no pending change has, \<open>applyChange\<close> throws an error
  whose message is \<open>Change not found:\<close> followed by the identifier, and so contains it; for
  every identifier of a pending change it returns a boolean and throws nothing, dry run or
  not. The error is thrown outside the \<open>try\<close> and reaches the caller.
\<close>

theorem applyChange_not_found:
  "(cid \<notin> pending_ids w \<longrightarrow>
      applyChange cid dryRun (w, fs) = Inl (Error (''Change not found: '' @ cid)) \<and>
      sublist cid (message (Error (''Change not found: '' @ cid))))
   \<and> (cid \<in> pending_ids w \<longrightarrow> (\<exists>r. applyChange cid dryRun (w, fs) = Inr r))"
proof (intro conjI impI)
  assume "cid \<notin> pending_ids w"
  then have "find (\<lambda>c. changeId c = cid) (pendingChanges w) = None"
    by (simp add: find_None_ids pending_ids_def)
  then show "applyChange cid dryRun (w, fs) = Inl (Error (''Change not found: '' @ cid))"
    by (simp add: applyChange_def)
next
  show "sublist cid (message (Error (''Change not found: '' @ cid)))"
    by (simp only: message_def error.case sublist_append_leftI)
next
  assume "cid \<in> pending_ids w"
  then obtain c where "find (\<lambda>c. changeId c = cid) (pendingChanges w) = Some c"
    using find_None_ids[of cid "pendingChanges w"] by (auto simp: pending_ids_def)
  then show "\<exists>r. applyChange cid dryRun (w, fs) = Inr r"
    by (auto simp add: applyChange_def split: prod.splits)
qed

theorem applyChange_not_found_witness:
  "''bogus-id'' \<notin> pending_ids (fst failedCreate) \<and>
   applyChange ''bogus-id'' False (fst failedCreate, snd failedCreate)
     = Inl (Error ''Change not found: bogus-id'') \<and>
   sublist ''bogus-id'' (message (Error ''Change not found: bogus-id'')) \<and>
   ''c1'' \<in> pending_ids (fst failedCreate) \<and>
   (\<exists>r. applyChange ''c1'' True (fst failedCreate, snd failedCreate) = Inr r)"
proof -
  have a: "''bogus-id'' \<notin> pending_ids (fst failedCreate)"
    by (simp add: scenario_defs op_defs)
  have b: "''c1'' \<in> pending_ids (fst failedCreate)"
    by (simp add: scenario_defs op_defs)
  show ?thesis
    using a b applyChange_not_found[of "''bogus-id''" "fst failedCreate" False "snd failedCreate"]
      applyChange_not_found[of "''c1''" "fst failedCreate" True "snd failedCreate"]
    by simp
qed

subsection \<open>Staging without the original\<close>

text \<open>
  Claim C7: when the read of the current content fails, \<open>modifyFile\<close> and \<open>deleteFile\<close>
  still return a change, whose original content is empty and whose status is \<open>PENDING\<close>,
  and append it to the pending array. Neither function has an error result: the only call
  that can throw is the read, inside its own \<open>try\<close>.
\<close>

theorem staging_survives_read_failure:
  assumes "fst (openTextDocument path fs) = None"
  shows "(case modifyFile cid now path content descr cmd reason (w, fs) of
            (change, w', fs') \<Rightarrow>
              originalContent change = [] \<and> status change = PENDING \<and>
              changeType change = MODIFY \<and> newContent change = content \<and>
              pendingChanges w' = pendingChanges w @ [change])
       \<and> (case deleteFile cid now path descr cmd reason (w, fs) of
            (change, w', fs') \<Rightarrow>
              originalContent change = [] \<and> status change = PENDING \<and>
              changeType change = DELETE \<and> newContent change = [] \<and>
              pendingChanges w' = pendingChanges w @ [change])"
  using assms by (cases "openTextDocument path fs") (simp add: modifyFile_def deleteFile_def Let_def)

theorem staging_survives_read_failure_witness:
  "fst (openTextDocument ''/t/missing.ts'' (disk [] [])) = None \<and>
   fst (openTextDocument ''/t/a.ts'' (disk [(''/t/a.ts'', ''old'')] [True])) = None \<and>
   originalContent (fst (modifyFile ''m1'' 1 ''/t/missing.ts'' ''new'' ''desc'' AI_GENERATED None
                           (newFileWriter, disk [] []))) = [] \<and>
   map status (pendingChanges (fst (snd (deleteFile ''d1'' 1 ''/t/a.ts'' ''desc'' AI_GENERATED None
                           (newFileWriter, disk [(''/t/a.ts'', ''old'')] [True]))))) = [PENDING]"
proof -
  have a: "fst (openTextDocument ''/t/missing.ts'' (disk [] [])) = None"
    by (simp add: scenario_defs op_defs)
  have b: "fst (openTextDocument ''/t/a.ts'' (disk [(''/t/a.ts'', ''old'')] [True])) = None"
    by (simp add: scenario_defs op_defs)
  show ?thesis
    using a b
      staging_survives_read_failure[where path = "''/t/missing.ts''" and fs = "disk [] []"
        and cid = "''m1''" and now = 1 and content = "''new''" and descr = "''desc''"
        and cmd = AI_GENERATED and reason = None and w = newFileWriter]
      staging_survives_read_failure[where path = "''/t/a.ts''"
        and fs = "disk [(''/t/a.ts'', ''old'')] [True]"
        and cid = "''d1''" and now = 1 and content = "''new''" and descr = "''desc''"
        and cmd = AI_GENERATED and reason = None and w = newFileWriter]
    by (simp add: split_beta scenario_defs op_defs)
qed

subsection \<open>Resolved changes\<close>

lemma ids_remove_first_subset:
  "set (map changeId (remove_first P xs)) \<subseteq> set (map changeId xs)"
  by (induction xs) auto

lemma applyChange_pending_ids:
  assumes "applyChange cid dryRun (w, fs) = Inr (ok, w', fs')"
  shows "pending_ids w' \<subseteq> pending_ids w"
proof -
  obtain change where f: "find (\<lambda>c. changeId c = cid) (pendingChanges w) = Some change"
    using assms by (auto simp: applyChange_def split: option.splits)
  then have cid: "changeId change = cid" using find_Some_ids by blast
  have "pendingChanges w' = pendingChanges w
      \<or> pendingChanges w' = remove_first (\<lambda>c. changeId c = cid) (pendingChanges w)
      \<or> pendingChanges w' = update_first (\<lambda>c. changeId c = cid)
            (\<lambda>c. c\<lparr>status := FAILED\<rparr>) (pendingChanges w)"
    using assms f
    by (auto simp: applyChange_def moveToHistory_def Let_def cid remove_updated_first
          split: if_splits prod.splits)
  then show ?thesis
    using ids_remove_first_subset[of "\<lambda>c. changeId c = cid" "pendingChanges w"]
    by (auto simp: pending_ids_def map_id_update_first simp del: set_map)
qed

lemma applyAllLoop_pending_ids:
  "pending_ids (fst (snd (applyAllLoop dryRun changes tally s))) \<subseteq> pending_ids (fst s)"
proof (induction changes arbitrary: tally s)
  case Nil
  then show ?case by simp
next
  case (Cons change changes)
  obtain a b where t: "tally = (a, b)" by (cases tally)
  show ?case
  proof (cases "applyChange (changeId change) dryRun s")
    case (Inl e)
    then show ?thesis using Cons t by simp
  next
    case (Inr r)
    obtain ok w' fs' where r: "r = (ok, w', fs')" by (cases r)
    have "pending_ids w' \<subseteq> pending_ids (fst s)"
      using applyChange_pending_ids[of "changeId change" dryRun "fst s" "snd s" ok w' fs'] Inr r
      by simp
    moreover have "pending_ids (fst (snd (applyAllLoop dryRun changes tally' (w', fs')))) \<subseteq> pending_ids w'"
      for tally' using Cons[of tally' "(w', fs')"] by simp
    ultimately show ?thesis using Inr r t by (cases ok) auto
  qed
qed

lemma perform_pending_ids:
  "pending_ids (fst (perform operation s))
     \<subseteq> pending_ids (fst s) \<union> (case staged_id operation of None \<Rightarrow> {} | Some cid \<Rightarrow> {cid})"
proof (cases operation)
  case (OpApplyChange cid dryRun)
  show ?thesis
  proof (cases "applyChange cid dryRun s")
    case (Inl e)
    then show ?thesis using OpApplyChange by simp
  next
    case (Inr r)
    obtain ok w' fs' where r: "r = (ok, w', fs')" by (cases r)
    then show ?thesis
      using applyChange_pending_ids[of cid dryRun "fst s" "snd s" ok w' fs'] Inr OpApplyChange
      by simp
  qed
next
  case (OpApplyAllChanges dryRun)
  then show ?thesis using applyAllLoop_pending_ids[of dryRun _ "(0, 0)" s]
    by (simp add: applyAllChanges_def)
next
  case (OpCancelChange cid)
  then show ?thesis
    using ids_remove_first_subset[of "\<lambda>c. changeId c = cid" "pendingChanges (fst s)"]
    by (auto simp: cancelChange_def pending_ids_def simp del: set_map split: option.splits)
qed (auto simp: pending_ids_def clearPendingChanges_def stage_fst stage_change
       createFile_def modifyFile_def deleteFile_def createChange_def Let_def split: prod.splits)

lemma runs_pending_ids:
  assumes "\<forall>operation \<in> set ops. staged_id operation \<noteq> Some cid" "cid \<notin> pending_ids (fst s)"
  shows "cid \<notin> pending_ids (fst (runs ops s))"
  using assms
proof (induction ops arbitrary: s)
  case Nil
  then show ?case by simp
next
  case (Cons operation ops)
  have "cid \<notin> pending_ids (fst (perform operation s))"
    using perform_pending_ids[of operation s] Cons.prems by (auto split: option.splits)
  then show ?case using Cons by simp
qed

lemma not_found_after:
  assumes "cid \<notin> pending_ids (fst s)"
  shows "applyChange cid dryRun s = Inl (Error (''Change not found: '' @ cid))"
proof -
  have "find (\<lambda>c. changeId c = cid) (pendingChanges (fst s)) = None"
    using assms by (simp add: find_None_ids pending_ids_def)
  then show ?thesis by (simp add: applyChange_def split_beta)
qed

lemma removed_id_gone:
  assumes "distinct (map changeId xs)"
  shows "cid \<notin> set (map changeId (remove_first (\<lambda>c. changeId c = cid) xs))"
  using ids_remove_first[OF assms, of cid] by simp

lemma applied_moves:
  assumes "distinct (map changeId (pendingChanges w))"
    and "applyChange cid False (w, fs) = Inr (True, s')"
  shows "cid \<notin> pending_ids (fst s') \<and>
         (\<exists>c \<in> set (changeHistory (fst s')). changeId c = cid \<and> status c = APPLIED)"
proof -
  obtain change where f: "find (\<lambda>c. changeId c = cid) (pendingChanges w) = Some change"
    using assms(2) by (auto simp: applyChange_def split: option.splits)
  then have cid: "changeId change = cid" using find_Some_ids by blast
  let ?w1 = "w\<lparr>pendingChanges := update_first (\<lambda>c. changeId c = cid)
                 (\<lambda>c. c\<lparr>status := APPLIED\<rparr>) (pendingChanges w)\<rparr>"
  have s': "fst s' = moveToHistory (change\<lparr>status := APPLIED\<rparr>) ?w1"
    using assms(2) f by (auto simp: applyChange_def split: prod.splits if_splits)
  have "pendingChanges (fst s') = remove_first (\<lambda>c. changeId c = cid) (pendingChanges w)"
    unfolding s' by (simp add: moveToHistory_def Let_def cid remove_updated_first)
  then have a: "cid \<notin> pending_ids (fst s')"
    using removed_id_gone[OF assms(1), of cid] by (simp add: pending_ids_def)
  have "change\<lparr>status := APPLIED\<rparr> \<in> set (changeHistory (fst s'))"
    unfolding s' using last_in_slice[of maxHistorySize "change\<lparr>status := APPLIED\<rparr>" "changeHistory w"]
    by (simp add: moveToHistory_def Let_def maxHistorySize_def)
  moreover have "changeId (change\<lparr>status := APPLIED\<rparr>) = cid \<and>
      status (change\<lparr>status := APPLIED\<rparr>) = APPLIED"
    using cid by simp
  ultimately have "\<exists>c \<in> set (changeHistory (fst s')). changeId c = cid \<and> status c = APPLIED"
    by blast
  then show ?thesis using a by simp
qed

text \<open>
  When the identifiers of the pending changes are distinct, a change that \<open>applyChange\<close>
  has applied is in the history with the status \<open>APPLIED\<close>, and after it, or after a
  \<open>cancelChange\<close> that returned \<open>true\<close>, every later \<open>applyChange\<close> with the same identifier
  throws the error of an unknown identifier, whatever operations come between, as long as
  none stages a change under that identifier again.
\<close>

lemma applyChange_resolved_not_found:
  assumes "distinct (map changeId (pendingChanges w))"
    and "\<forall>operation \<in> set ops. staged_id operation \<noteq> Some cid"
  shows "(applyChange cid False (w, fs) = Inr (True, s') \<longrightarrow>
            (\<exists>c \<in> set (changeHistory (fst s')). changeId c = cid \<and> status c = APPLIED) \<and>
            applyChange cid dryRun (runs ops s') = Inl (Error (''Change not found: '' @ cid)))
       \<and> (cancelChange cid w = (True, w') \<longrightarrow>
            applyChange cid dryRun (runs ops (w', fs)) = Inl (Error (''Change not found: '' @ cid)))"
proof (intro conjI impI)
  assume a: "applyChange cid False (w, fs) = Inr (True, s')"
  show "\<exists>c \<in> set (changeHistory (fst s')). changeId c = cid \<and> status c = APPLIED"
    using applied_moves[OF assms(1) a] by simp
  have "cid \<notin> pending_ids (fst s')" using applied_moves[OF assms(1) a] by simp
  then have "cid \<notin> pending_ids (fst (runs ops s'))" using runs_pending_ids[OF assms(2)] by simp
  then show "applyChange cid dryRun (runs ops s') = Inl (Error (''Change not found: '' @ cid))"
    by (rule not_found_after)
next
  assume c: "cancelChange cid w = (True, w')"
  then have "pendingChanges w' = remove_first (\<lambda>c. changeId c = cid) (pendingChanges w)"
    by (auto simp: cancelChange_def split: option.splits)
  then have "cid \<notin> pending_ids (fst (w', fs))"
    using removed_id_gone[OF assms(1), of cid] by (simp add: pending_ids_def)
  then have "cid \<notin> pending_ids (fst (runs ops (w', fs)))" using runs_pending_ids[OF assms(2)] by simp
  then show "applyChange cid dryRun (runs ops (w', fs)) = Inl (Error (''Change not found: '' @ cid))"
    by (rule not_found_after)
qed

lemma applyChange_resolved_not_found_example:
  "distinct (map changeId (pendingChanges (fst threePending))) \<and>
   list_all (\<lambda>operation. staged_id operation \<noteq> Some ''c1'') laterOps \<and>
   applyChange ''c1'' False (fst threePending, snd threePending) = Inr (True, firstApplied) \<and>
   applyChange ''c1'' False (runs laterOps firstApplied) = Inl (Error ''Change not found: c1'') \<and>
   cancelChange ''c1'' (fst threePending) = (True, fst firstCancelled) \<and>
   applyChange ''c1'' False (runs laterOps (fst firstCancelled, snd threePending))
     = Inl (Error ''Change not found: c1'')"
proof -
  have d: "distinct (map changeId (pendingChanges (fst threePending)))"
    by (simp add: scenario_defs op_defs)
  have n: "\<forall>operation \<in> set laterOps. staged_id operation \<noteq> Some ''c1''"
    by (simp add: laterOps_def)
  have a: "applyChange ''c1'' False (fst threePending, snd threePending) = Inr (True, firstApplied)"
    by (simp add: firstApplied_def scenario_defs op_defs)
  have c: "cancelChange ''c1'' (fst threePending) = (True, fst firstCancelled)"
    by (simp add: firstCancelled_def scenario_defs op_defs)
  have r: "applyChange ''c1'' False (runs laterOps firstApplied) = Inl (Error (''Change not found: '' @ ''c1''))
      \<and> applyChange ''c1'' False (runs laterOps (fst firstCancelled, snd threePending))
           = Inl (Error (''Change not found: '' @ ''c1''))"
    using a c applyChange_resolved_not_found[OF d n, where fs = "snd threePending"
        and s' = firstApplied and w' = "fst firstCancelled" and dryRun = False]
    by blast
  have l: "list_all (\<lambda>operation. staged_id operation \<noteq> Some ''c1'') laterOps"
    using n by (simp only: list_all_iff)
  show ?thesis using d l a c r by simp
qed

lemma collidingId_value: "collidingId = ''change_1700000000000_500''"
  by (simp add: collidingId_def generateChangeId_def decimal.simps)

text \<open>
  Claim C10: once a change has been applied or cancelled, \<open>applyChange\<close> with its identifier
  is to throw the error of an unknown identifier. The code relies on the identifiers being
  unique, which \<open>generateChangeId\<close>, documented as generating a unique change ID, does not
  ensure: the identifier is the clock in milliseconds and one of a thousand random
  numbers. Two creations staged at the same millisecond with the same random number share
  the identifier \<open>change_1700000000000_500\<close>. The first \<open>applyChange\<close> applies the first of
  them and moves it to the history with the status \<open>APPLIED\<close>; the second \<open>applyChange\<close>
  with the identifier of this applied change throws nothing: it finds the other change,
  writes its file and returns \<open>true\<close>.
\<close>

theorem applyChange_colliding_id_reapplies:
  "collidingId = ''change_1700000000000_500''
   \<and> map changeId (pendingChanges (fst twoUnderOneId)) = [collidingId, collidingId]
   \<and> applyChange collidingId False twoUnderOneId = Inr (True, oneOfTwoApplied)
   \<and> map (\<lambda>c. (changeId c, filePath c, status c)) (changeHistory (fst oneOfTwoApplied))
       = [(collidingId, ''/t/a.ts'', APPLIED)]
   \<and> applyChange collidingId False oneOfTwoApplied = Inr (True, bothApplied)
   \<and> applyChange collidingId False oneOfTwoApplied \<noteq> Inl (Error (''Change not found: '' @ collidingId))
   \<and> files (snd oneOfTwoApplied) ''/t/b.ts'' = None
   \<and> files (snd bothApplied) ''/t/b.ts'' = Some ''B''
   \<and> map (\<lambda>c. (changeId c, filePath c, status c)) (changeHistory (fst bothApplied))
       = [(collidingId, ''/t/a.ts'', APPLIED), (collidingId, ''/t/b.ts'', APPLIED)]"
  by (simp add: collidingId_value twoUnderOneId_def oneOfTwoApplied_def bothApplied_def
        generateChangeId_def decimal.simps scenario_defs op_defs)

subsection \<open>Applying all pending changes\<close>

lemma applyAllLoop_tally:
  "fst (fst (applyAllLoop dryRun changes (a, b) s)) + snd (fst (applyAllLoop dryRun changes (a, b) s))
     = a + b + length changes"
proof (induction changes arbitrary: a b s)
  case Nil
  then show ?case by simp
next
  case (Cons change changes)
  show ?case
  proof (cases "applyChange (changeId change) dryRun s")
    case (Inl e)
    then show ?thesis using Cons[of a "b + 1" s] by simp
  next
    case (Inr r)
    obtain ok s' where r: "r = (ok, s')" by (cases r)
    show ?thesis
    proof (cases ok)
      case True
      then show ?thesis using Inr r Cons[of "a + 1" b s'] by simp
    next
      case False
      then show ?thesis using Inr r Cons[of a "b + 1" s'] by simp
    qed
  qed
qed


lemma find_append_skip: "\<forall>x \<in> set xs. \<not> P x \<Longrightarrow> find P (xs @ ys) = find P ys"
  by (induction xs) auto

lemma remove_first_append_skip:
  "\<forall>x \<in> set xs. \<not> P x \<Longrightarrow> P y \<Longrightarrow> remove_first P (xs @ y # ys) = xs @ ys"
  by (induction xs) auto

lemma update_first_append_skip:
  "\<forall>x \<in> set xs. \<not> P x \<Longrightarrow> P y \<Longrightarrow> update_first P f (xs @ y # ys) = xs @ f y # ys"
  by (induction xs) auto

lemma applyAllLoop_attempts:
  assumes "pendingChanges (fst s) = finished @ changes"
    and "distinct (map changeId (finished @ changes))"
    and "\<forall>c \<in> set finished. status c = FAILED"
  shows "(\<forall>c \<in> set (pendingChanges (fst (snd (applyAllLoop False changes (a, b) s)))).
            status c = FAILED)
       \<and> length (pendingChanges (fst (snd (applyAllLoop False changes (a, b) s)))) + b
           = length finished + snd (fst (applyAllLoop False changes (a, b) s))"
  using assms
proof (induction changes arbitrary: s finished a b)
  case Nil
  then show ?case by simp
next
  case (Cons change changes)
  let ?P = "\<lambda>c. changeId c = changeId change"
  obtain w fs where s: "s = (w, fs)" by (cases s)
  have "changeId change \<notin> changeId ` set finished" using Cons.prems(2) by auto
  then have skip: "\<forall>x \<in> set finished. \<not> ?P x" by (metis imageI)
  have pend: "pendingChanges w = finished @ change # changes" using Cons.prems(1) s by simp
  have f: "find ?P (pendingChanges w) = Some change"
    unfolding pend using find_append_skip[OF skip] by simp
  obtain ok fs' where ex: "executeChange change fs = (ok, fs')" by (cases "executeChange change fs")
  show ?case
  proof (cases ok)
    case True
    let ?w' = "moveToHistory (change\<lparr>status := APPLIED\<rparr>)
                 (w\<lparr>pendingChanges := update_first ?P (\<lambda>c. c\<lparr>status := APPLIED\<rparr>) (pendingChanges w)\<rparr>)"
    have ap: "applyChange (changeId change) False s = Inr (True, ?w', fs')"
      using f ex True s by (simp add: applyChange_def)
    have "pendingChanges ?w' = remove_first ?P (pendingChanges w)"
      by (simp add: moveToHistory_def Let_def remove_updated_first)
    then have p': "pendingChanges (fst (?w', fs')) = finished @ changes"
      unfolding pend using remove_first_append_skip[OF skip, of change changes] by simp
    have d': "distinct (map changeId (finished @ changes))" using Cons.prems(2) by simp
    show ?thesis
      using Cons.IH[OF p' d' Cons.prems(3), of "a + 1" b] ap by simp
  next
    case False
    let ?w' = "w\<lparr>pendingChanges := update_first ?P (\<lambda>c. c\<lparr>status := FAILED\<rparr>) (pendingChanges w)\<rparr>"
    have ap: "applyChange (changeId change) False s = Inr (False, ?w', fs')"
      using f ex False s by (simp add: applyChange_def)
    have p': "pendingChanges (fst (?w', fs')) = (finished @ [change\<lparr>status := FAILED\<rparr>]) @ changes"
      unfolding pend using update_first_append_skip[OF skip, of change "\<lambda>c. c\<lparr>status := FAILED\<rparr>" changes]
      by simp
    have d': "distinct (map changeId ((finished @ [change\<lparr>status := FAILED\<rparr>]) @ changes))"
      using Cons.prems(2) by simp
    have f': "\<forall>c \<in> set (finished @ [change\<lparr>status := FAILED\<rparr>]). status c = FAILED"
      using Cons.prems(3) by simp
    show ?thesis
      using Cons.IH[OF p' d' f', of a "b + 1"] ap by simp
  qed
qed

text \<open>
  Claim C3, as stated, fails in its scenario: of three pending creations whose second
  write throws, the failed change stays in the pending array, and the history holds the
  two applied changes and no failed one.
\<close>

theorem partial_failure_keeps_failed_pending:
  "fst (applyAllChanges False threePending) = (2, 1) \<and>
   map status (pendingChanges (fst (snd (applyAllChanges False threePending)))) = [FAILED] \<and>
   map status (changeHistory (fst (snd (applyAllChanges False threePending)))) = [APPLIED, APPLIED]"
  by (simp add: scenario_defs op_defs)

text \<open>
  Claim C3, amended: \<open>applyAllChanges\<close> returns a tally whose two counts add up to the
  number of pending changes at the call. When the identifiers of the pending changes are
  distinct and the run is not dry, every pending change is attempted: the changes left in
  the pending array are exactly the failed ones, each with the status \<open>FAILED\<close>, as many as
  the tally counts. Over three pending creations whose second write throws, the tally is
  2 successful and 1 failed, the failed change alone stays pending, and the history holds
  the first and the third, both applied.
\<close>

theorem applyAllChanges_tally:
  "fst (fst (applyAllChanges dryRun (w, fs))) + snd (fst (applyAllChanges dryRun (w, fs)))
     = length (pendingChanges w)
   \<and> (distinct (map changeId (pendingChanges w)) \<longrightarrow>
        (\<forall>c \<in> set (pendingChanges (fst (snd (applyAllChanges False (w, fs))))). status c = FAILED) \<and>
        length (pendingChanges (fst (snd (applyAllChanges False (w, fs)))))
          = snd (fst (applyAllChanges False (w, fs))))
   \<and> fst (applyAllChanges False threePending) = (2, 1)
   \<and> map changeId (pendingChanges (fst (snd (applyAllChanges False threePending)))) = [''c2'']
   \<and> map status (pendingChanges (fst (snd (applyAllChanges False threePending)))) = [FAILED]
   \<and> map changeId (changeHistory (fst (snd (applyAllChanges False threePending)))) = [''c1'', ''c3'']
   \<and> map status (changeHistory (fst (snd (applyAllChanges False threePending)))) = [APPLIED, APPLIED]"
proof (intro conjI impI)
  show "fst (fst (applyAllChanges dryRun (w, fs))) + snd (fst (applyAllChanges dryRun (w, fs)))
     = length (pendingChanges w)"
    using applyAllLoop_tally[of dryRun "pendingChanges w" 0 0 "(w, fs)"]
    by (simp add: applyAllChanges_def)
next
  assume d: "distinct (map changeId (pendingChanges w))"
  have "pendingChanges (fst (w, fs)) = [] @ pendingChanges w" by simp
  moreover have "distinct (map changeId ([] @ pendingChanges w))" using d by simp
  moreover have "\<forall>c \<in> set []. status (c :: FileChange) = FAILED" by simp
  ultimately have r: "(\<forall>c \<in> set (pendingChanges (fst (snd (applyAllLoop False (pendingChanges w) (0, 0) (w, fs))))).
            status c = FAILED)
       \<and> length (pendingChanges (fst (snd (applyAllLoop False (pendingChanges w) (0, 0) (w, fs))))) + 0
           = length ([] :: FileChange list) + snd (fst (applyAllLoop False (pendingChanges w) (0, 0) (w, fs)))"
    by (rule applyAllLoop_attempts)
  show "\<forall>c \<in> set (pendingChanges (fst (snd (applyAllChanges False (w, fs))))). status c = FAILED"
    using r by (simp add: applyAllChanges_def)
  show "length (pendingChanges (fst (snd (applyAllChanges False (w, fs)))))
          = snd (fst (applyAllChanges False (w, fs)))"
    using r by (simp add: applyAllChanges_def)
qed (simp_all add: scenario_defs op_defs)

theorem applyAllChanges_tally_witness:
  "distinct (map changeId (pendingChanges (fst threePending))) \<and>
   length (pendingChanges (fst (snd (applyAllChanges False (fst threePending, snd threePending)))))
     = snd (fst (applyAllChanges False (fst threePending, snd threePending))) \<and>
   snd (fst (applyAllChanges False (fst threePending, snd threePending))) = 1"
proof -
  have d: "distinct (map changeId (pendingChanges (fst threePending)))"
    by (simp add: scenario_defs op_defs)
  have t: "snd (fst (applyAllChanges False (fst threePending, snd threePending))) = 1"
    by (simp add: scenario_defs op_defs)
  show ?thesis
    using d t applyAllChanges_tally[of False "fst threePending" "snd threePending"] by blast
qed

subsection \<open>Undo\<close>

text \<open>
  Claim C2, as stated, fails: the deletion by which \<open>undoChange\<close> undoes a creation can
  throw, \<open>deleteFilePhysically\<close> catches that and returns \<open>false\<close>, and the created file
  stays. Here the creation is applied with success and the third call of the file system,
  the deletion, throws.
\<close>

theorem undo_fault_leaves_file:
  "applyChange ''c1'' False stagedCreateFaulty = Inr (True, appliedCreateFaulty) \<and>
   files (snd (undoChange ''c1'' appliedCreateFaulty)) ''/t/a.ts'' = Some ''X''"
  by (simp add: roundtrip_defs scenario_defs op_defs)

lemma writeFileContent_ok:
  "writeFileContent path content fs = (True, fs') \<Longrightarrow> files fs' path = Some content"
  by (auto simp: writeFileContent_def fs_createDirectory_def fs_writeFile_def next_fault_def
        Let_def split: list.splits if_splits prod.splits)

lemma deleteFilePhysically_ok:
  "deleteFilePhysically path fs = (True, fs') \<Longrightarrow> files fs' path = None"
  by (auto simp: deleteFilePhysically_def fs_delete_def next_fault_def
        Let_def split: list.splits if_splits prod.splits)

lemma find_last_fresh:
  assumes "cid \<notin> set (map changeId xs)" "changeId c = cid"
  shows "find (\<lambda>x. changeId x = cid) (xs @ [c]) = Some c"
proof -
  have "\<forall>x \<in> set xs. \<not> changeId x = cid" using assms(1) by auto
  then show ?thesis using find_append_skip[of xs "\<lambda>x. changeId x = cid" "[c]"] assms(2) by simp
qed

lemma find_last_trimmed:
  assumes "cid \<notin> set (map changeId xs)" "changeId c = cid"
  shows "find (\<lambda>x. changeId x = cid)
           (if length (xs @ [c]) > maxHistorySize then slice_last maxHistorySize (xs @ [c])
            else xs @ [c]) = Some c"
proof (cases "length (xs @ [c]) > maxHistorySize")
  case True
  define k where "k = length (xs @ [c]) - maxHistorySize"
  have "k \<le> length xs" using True by (simp add: k_def maxHistorySize_def)
  then have "slice_last maxHistorySize (xs @ [c]) = drop k xs @ [c]"
    by (simp add: slice_last_def k_def)
  moreover have "cid \<notin> set (map changeId (drop k xs))"
    using assms(1) by (auto dest: in_set_dropD)
  ultimately show ?thesis using True find_last_fresh[of cid "drop k xs" c] assms(2) by simp
next
  case False
  then show ?thesis using find_last_fresh[OF assms] by simp
qed

lemma applied_fresh:
  assumes "cid \<notin> pending_ids w" "cid \<notin> history_ids w" "changeId c = cid"
    and "applyChange cid False (w\<lparr>pendingChanges := pendingChanges w @ [c]\<rparr>, fs) = Inr (True, s2)"
  shows "find (\<lambda>x. changeId x = cid) (changeHistory (fst s2)) = Some (c\<lparr>status := APPLIED\<rparr>)
       \<and> executeChange c fs = (True, snd s2)"
proof -
  have f: "find (\<lambda>x. changeId x = cid) (pendingChanges w @ [c]) = Some c"
    using find_last_fresh[of cid "pendingChanges w" c] assms(1,3) by (simp add: pending_ids_def)
  obtain ok fs' where ex: "executeChange c fs = (ok, fs')" by (cases "executeChange c fs")
  have ok: "ok" and s2: "s2 = (moveToHistory (c\<lparr>status := APPLIED\<rparr>)
              (w\<lparr>pendingChanges := update_first (\<lambda>x. changeId x = cid)
                   (\<lambda>x. x\<lparr>status := APPLIED\<rparr>) (pendingChanges w @ [c])\<rparr>), fs')"
    using assms(4) f ex by (auto simp: applyChange_def split: if_splits)
  have "changeHistory (fst s2) =
      (if length (changeHistory w @ [c\<lparr>status := APPLIED\<rparr>]) > maxHistorySize
       then slice_last maxHistorySize (changeHistory w @ [c\<lparr>status := APPLIED\<rparr>])
       else changeHistory w @ [c\<lparr>status := APPLIED\<rparr>])"
    unfolding s2 by (simp add: moveToHistory_def Let_def)
  then have "find (\<lambda>x. changeId x = cid) (changeHistory (fst s2)) = Some (c\<lparr>status := APPLIED\<rparr>)"
    using find_last_trimmed[of cid "changeHistory w" "c\<lparr>status := APPLIED\<rparr>"] assms(2,3)
    by (simp add: history_ids_def)
  then show ?thesis using ex ok s2 by simp
qed

text \<open>
  Claim C2, amended: for a change staged under an identifier that the writer does not
  hold yet, \<open>createFile\<close>, then an \<open>applyChange\<close> that returns \<open>true\<close>, then an
  \<open>undoChange\<close> that returns \<open>true\<close> leave no file at the path; and when the original
  content was read at staging, \<open>modifyFile\<close>, then an \<open>applyChange\<close> that returns \<open>true\<close>,
  then an \<open>undoChange\<close> whose write does not throw leave the original content at the path.
\<close>

theorem undo_round_trip:
  assumes "cid \<notin> pending_ids w" and "cid \<notin> history_ids w"
  shows "(applyChange cid False (snd (createFile cid now path content descr cmd reason (w, fs)))
            = Inr (True, sa) \<longrightarrow>
          undoChange cid sa = (True, fu) \<longrightarrow> files fu path = None)
       \<and> (fst (openTextDocument path fs) = Some original \<longrightarrow>
          applyChange cid False (snd (modifyFile cid now path content descr cmd reason (w, fs)))
            = Inr (True, sa) \<longrightarrow>
          fst (writeFileContent path original (snd sa)) \<longrightarrow>
          files (snd (undoChange cid sa)) path = Some original)"
proof (intro conjI impI)
  define c where "c = fst (createFile cid now path content descr cmd reason (w, fs))"
  assume a: "applyChange cid False (snd (createFile cid now path content descr cmd reason (w, fs)))
            = Inr (True, sa)"
    and u: "undoChange cid sa = (True, fu)"
  have c: "changeId c = cid" "changeType c = CREATE" "filePath c = path"
    by (simp_all add: c_def createFile_def Let_def)
  have st: "snd (createFile cid now path content descr cmd reason (w, fs))
      = (w\<lparr>pendingChanges := pendingChanges w @ [c]\<rparr>, fs)"
    by (simp add: c_def createFile_def Let_def)
  have h: "find (\<lambda>x. changeId x = cid) (changeHistory (fst sa)) = Some (c\<lparr>status := APPLIED\<rparr>)"
    using applied_fresh[OF assms c(1)] a st by simp
  have "undoChange cid sa = deleteFilePhysically path (snd sa)"
    using h c by (simp add: undoChange_def split_beta)
  then show "files fu path = None" using u deleteFilePhysically_ok by simp
next
  define c where "c = fst (modifyFile cid now path content descr cmd reason (w, fs))"
  assume r: "fst (openTextDocument path fs) = Some original"
    and a: "applyChange cid False (snd (modifyFile cid now path content descr cmd reason (w, fs)))
            = Inr (True, sa)"
    and wr: "fst (writeFileContent path original (snd sa))"
  have c: "changeId c = cid" "changeType c = MODIFY" "filePath c = path" "originalContent c = original"
    using r by (simp_all add: c_def modifyFile_def Let_def split_beta)
  have st: "snd (modifyFile cid now path content descr cmd reason (w, fs))
      = (w\<lparr>pendingChanges := pendingChanges w @ [c]\<rparr>, snd (openTextDocument path fs))"
    by (simp add: c_def modifyFile_def Let_def split_beta)
  have h: "find (\<lambda>x. changeId x = cid) (changeHistory (fst sa)) = Some (c\<lparr>status := APPLIED\<rparr>)"
    using applied_fresh[OF assms c(1)] a st by simp
  have "snd (undoChange cid sa) = snd (writeFileContent path original (snd sa))"
    using h c by (simp add: undoChange_def split_beta)
  moreover have "writeFileContent path original (snd sa)
      = (True, snd (writeFileContent path original (snd sa)))"
    using wr by (cases "writeFileContent path original (snd sa)") simp
  ultimately show "files (snd (undoChange cid sa)) path = Some original"
    using writeFileContent_ok by simp
qed

theorem undo_round_trip_witness:
  "''c1'' \<notin> pending_ids newFileWriter \<and> ''c1'' \<notin> history_ids newFileWriter \<and>
   ''m1'' \<notin> pending_ids newFileWriter \<and> ''m1'' \<notin> history_ids newFileWriter \<and>
   applyChange ''c1'' False
     (snd (createFile ''c1'' 1 ''/t/a.ts'' ''X'' ''desc'' AI_GENERATED None
             (newFileWriter, disk [(''/t/b.ts'', ''old'')] [])))
     = Inr (True, appliedCreate) \<and>
   undoChange ''c1'' appliedCreate = (True, snd (undoChange ''c1'' appliedCreate)) \<and>
   files (snd (undoChange ''c1'' appliedCreate)) ''/t/a.ts'' = None \<and>
   fst (openTextDocument ''/t/b.ts'' (disk [(''/t/b.ts'', ''old'')] [])) = Some ''old'' \<and>
   applyChange ''m1'' False
     (snd (modifyFile ''m1'' 2 ''/t/b.ts'' ''Y'' ''desc'' AI_GENERATED None
             (newFileWriter, disk [(''/t/b.ts'', ''old'')] [])))
     = Inr (True, appliedModify) \<and>
   files (snd appliedModify) ''/t/b.ts'' = Some ''Y'' \<and>
   fst (writeFileContent ''/t/b.ts'' ''old'' (snd appliedModify)) \<and>
   files (snd (undoChange ''m1'' appliedModify)) ''/t/b.ts'' = Some ''old''"
proof -
  have f: "''c1'' \<notin> pending_ids newFileWriter" "''c1'' \<notin> history_ids newFileWriter"
    "''m1'' \<notin> pending_ids newFileWriter" "''m1'' \<notin> history_ids newFileWriter"
    by (simp_all add: scenario_defs op_defs)
  have a1: "applyChange ''c1'' False
     (snd (createFile ''c1'' 1 ''/t/a.ts'' ''X'' ''desc'' AI_GENERATED None
             (newFileWriter, disk [(''/t/b.ts'', ''old'')] [])))
     = Inr (True, appliedCreate)"
    by (simp add: roundtrip_defs scenario_defs op_defs)
  have u1: "undoChange ''c1'' appliedCreate = (True, snd (undoChange ''c1'' appliedCreate))"
    by (simp add: roundtrip_defs scenario_defs op_defs)
  have r2: "fst (openTextDocument ''/t/b.ts'' (disk [(''/t/b.ts'', ''old'')] [])) = Some ''old''"
    by (simp add: scenario_defs op_defs)
  have a2: "applyChange ''m1'' False
     (snd (modifyFile ''m1'' 2 ''/t/b.ts'' ''Y'' ''desc'' AI_GENERATED None
             (newFileWriter, disk [(''/t/b.ts'', ''old'')] [])))
     = Inr (True, appliedModify)"
    by (simp add: roundtrip_defs scenario_defs op_defs)
  have m2: "files (snd appliedModify) ''/t/b.ts'' = Some ''Y''"
    by (simp add: roundtrip_defs scenario_defs op_defs)
  have w2: "fst (writeFileContent ''/t/b.ts'' ''old'' (snd appliedModify))"
    by (simp add: roundtrip_defs scenario_defs op_defs)
  have c1: "files (snd (undoChange ''c1'' appliedCreate)) ''/t/a.ts'' = None"
    using a1 u1 undo_round_trip[OF f(1,2), where now = 1 and path = "''/t/a.ts''"
        and content = "''X''" and descr = "''desc''" and cmd = AI_GENERATED and reason = None
        and fs = "disk [(''/t/b.ts'', ''old'')] []" and sa = appliedCreate
        and fu = "snd (undoChange ''c1'' appliedCreate)"]
    by blast
  have c2: "files (snd (undoChange ''m1'' appliedModify)) ''/t/b.ts'' = Some ''old''"
    using r2 a2 w2 undo_round_trip[OF f(3,4), where now = 2 and path = "''/t/b.ts''"
        and content = "''Y''" and descr = "''desc''" and cmd = AI_GENERATED and reason = None
        and fs = "disk [(''/t/b.ts'', ''old'')] []" and sa = appliedModify
        and original = "''old''"]
    by blast
  show ?thesis using f a1 u1 r2 a2 m2 w2 c1 c2 by blast
qed


section \<open>Properties of the Response Parser and the Provider Router\<close>

subsection \<open>Code blocks\<close>





lemma largest_snoc:
  "foldl (\<lambda>prev current. if length current > length prev then current else prev) b (bs @ [x])
   = (if length x > length (foldl (\<lambda>prev current. if length current > length prev then current else prev) b bs)
      then x
      else foldl (\<lambda>prev current. if length current > length prev then current else prev) b bs)"
  by simp


lemma fence_prefix_cut:
  assumes "take 3 (xs @ newline # ys) = fence"
  shows "take 3 xs = fence \<and> 3 \<le> length xs"
proof -
  consider "xs = []" | a where "xs = [a]" | a b where "xs = [a, b]"
    | a b c zs where "xs = a # b # c # zs"
    by (metis list.exhaust)
  then show ?thesis
    using assms by cases (simp_all add: fence_def backtick_def newline_def)
qed

lemma fence_prefix_sublist: "take 3 xs = fence \<Longrightarrow> sublist fence xs"
proof -
  assume "take 3 xs = fence"
  then have "xs = fence @ drop 3 xs" by (metis append_take_drop_id)
  then show ?thesis by (metis sublist_append_rightI)
qed

lemma sublist_tail: "\<not> sublist fence (c # cs) \<Longrightarrow> \<not> sublist fence cs"
  by (simp add: sublist_Cons_right)

lemma closeFence_body:
  assumes "\<not> sublist fence body"
  shows "closeFence (body @ newline # fence @ rest) = Some (body, rest)"
  using assms
proof (induction body)
  case Nil
  then show ?case by (simp add: fence_def)
next
  case (Cons c cs)
  have no3: "take 3 ((c # cs) @ newline # fence @ rest) \<noteq> fence"
    using fence_prefix_cut[of "c # cs" "fence @ rest"] fence_prefix_sublist[of "c # cs"] Cons.prems
    by blast
  have no4: "take 4 ((c # cs) @ newline # fence @ rest) \<noteq> newline # fence"
  proof
    assume a: "take 4 ((c # cs) @ newline # fence @ rest) = newline # fence"
    then have "take 3 (cs @ newline # fence @ rest) = fence" by (simp add: fence_def)
    then have "sublist fence cs"
      using fence_prefix_cut[of cs "fence @ rest"] fence_prefix_sublist[of cs] by blast
    then show False using Cons.prems by (simp add: sublist_Cons_right)
  qed
  have "closeFence (cs @ newline # fence @ rest) = Some (cs, rest)"
    using Cons.IH sublist_tail[OF Cons.prems] by simp
  then show ?case using no3 no4 by simp
qed

lemma matchAt_block:
  assumes "\<forall>c \<in> set tag. isWordChar c" "\<not> sublist fence body"
  shows "matchAt (fence @ tag @ newline # body @ newline # fence @ rest) = Some (body, rest)"
proof -
  have "\<not> isWordChar newline" by (simp add: isWordChar_def newline_def)
  then have "dropWhile isWordChar (tag @ newline # body @ newline # fence @ rest)
      = newline # body @ newline # fence @ rest"
    using assms(1) by (simp add: dropWhile_append2)
  moreover have "take 3 (fence @ tag @ newline # body @ newline # fence @ rest) = fence"
    by (simp add: fence_def)
  moreover have "drop 3 (fence @ tag @ newline # body @ newline # fence @ rest)
      = tag @ newline # body @ newline # fence @ rest"
    by (simp add: fence_def)
  ultimately show ?thesis
    using closeFence_body[OF assms(2), of rest] by (simp add: matchAt_def Let_def)
qed

lemma scanBlocks_prose:
  "\<not> sublist fence prose \<Longrightarrow> scanBlocks prose = map Inl prose"
proof (induction prose)
  case Nil
  then show ?case by (simp add: matchAt_def fence_def)
next
  case (Cons c cs)
  have "take 3 (c # cs) \<noteq> fence" using fence_prefix_sublist[of "c # cs"] Cons.prems by blast
  then have "matchAt (c # cs) = None" by (simp add: matchAt_def)
  then show ?case using Cons.IH sublist_tail[OF Cons.prems] by simp
qed

lemma scanBlocks_single:
  assumes "\<forall>c \<in> set tag. isWordChar c" "\<not> sublist fence body" "\<not> sublist fence prose"
  shows "scanBlocks (fence @ tag @ newline # body @ newline # fence @ prose)
           = Inr body # map Inl prose"
  using matchAt_block[OF assms(1,2), of prose] scanBlocks_prose[OF assms(3)]
  by (subst scanBlocks.simps) simp

















subsection \<open>Confidence\<close>

lemmas double_defs = toDouble_def binaryExponent_def pow2_def roundHalfEven_def Let_def

lemma double_tenth: "toDouble 0.1 = 7205759403792794 / 2 ^ 56"
  by (simp add: double_defs)

lemma double_one: "toDouble 1 = 1"
  by (simp add: double_defs)

lemma min_max_clamp: "lo \<le> hi \<Longrightarrow> min (max x lo) hi = clamp lo hi (x::real)"
  by (simp add: clamp_def min_def max_def)

lemma min_max_bounds: "lo \<le> hi \<Longrightarrow> lo \<le> min (max x lo) hi \<and> min (max x lo) hi \<le> (hi::real)"
  by (simp add: min_def max_def)

lemma tenth_le_one: "toDouble 0.1 \<le> toDouble 1.0"
  by (simp add: double_tenth double_one)

lemma double_seven: "toDouble 0.7 = 6305039478318694 / 2 ^ 53"
  by (simp add: double_defs)

lemma double_fifth: "toDouble 0.2 = 7205759403792794 / 2 ^ 55"
  by (simp add: double_defs)

lemma add_tenth_once: "dadd (toDouble 0.7) (toDouble 0.1) = 7205759403792793 / 2 ^ 53"
  unfolding double_tenth double_seven by (simp add: dadd_def double_defs)

lemma sub_fifth: "dsub (toDouble 0.7) (toDouble 0.2) = 9007199254740991 / 2 ^ 54"
  unfolding double_fifth double_seven by (simp add: dsub_def double_defs)

lemma confidence_of_long_explanation: "calculateConfidence (replicate 101 (CHR ''a'')) Explain None = 7205759403792793 / 2 ^ 53"
proof -
  have "calculateConfidence (replicate 101 (CHR ''a'')) Explain None
      = min (max (dadd (toDouble 0.7) (toDouble 0.1)) (toDouble 0.1)) (toDouble 1.0)"
    by (simp add: calculateConfidence_def)
  also have "\<dots> = min (max (7205759403792793 / 2 ^ 53) (toDouble 0.1)) (toDouble 1.0)"
    by (simp only: add_tenth_once)
  also have "\<dots> = 7205759403792793 / 2 ^ 53"
    by (simp add: double_tenth double_one)
  finally show ?thesis .
qed

lemma tenthsAdded_Suc: "tenthsAdded (Suc k) = dadd (tenthsAdded k) (toDouble 0.1)"
  by (simp add: tenthsAdded_def)

lemma tenths0: "tenthsAdded 0 = 6305039478318694 / 2 ^ 53"
  by (simp add: tenthsAdded_def double_seven)

lemma tenths1: "tenthsAdded (Suc 0) = 7205759403792793 / 2 ^ 53"
  unfolding tenthsAdded_Suc tenths0 double_tenth by (simp add: dadd_def double_defs)

lemma tenths2: "tenthsAdded (Suc (Suc 0)) = 8106479329266892 / 2 ^ 53"
  unfolding tenthsAdded_Suc[of "Suc 0"] tenths1 double_tenth by (simp add: dadd_def double_defs)

lemma tenths3: "tenthsAdded (Suc (Suc (Suc 0))) = 9007199254740991 / 2 ^ 53"
  unfolding tenthsAdded_Suc[of "Suc (Suc 0)"] tenths2 double_tenth
  by (simp add: dadd_def double_defs)

lemma tenths4: "tenthsAdded (Suc (Suc (Suc (Suc 0)))) = 4953959590107545 / 2 ^ 52"
  unfolding tenthsAdded_Suc[of "Suc (Suc (Suc 0))"] tenths3 double_tenth
  by (simp add: dadd_def double_defs)

lemma tenths5: "tenthsAdded (Suc (Suc (Suc (Suc (Suc 0))))) = 5404319552844595 / 2 ^ 52"
  unfolding tenthsAdded_Suc[of "Suc (Suc (Suc (Suc 0)))"] tenths4 double_tenth
  by (simp add: dadd_def double_defs)


lemma chain_count:
  "(let c = toDouble 0.7;
        c = (if a1 then dadd c (toDouble 0.1) else c);
        c = (if a2 then dadd c (toDouble 0.1) else c);
        c = (if a3 then dadd c (toDouble 0.1) else c);
        c = (if a4 then dadd c (toDouble 0.1) else c)
    in if a5 then dadd c (toDouble 0.1) else c)
   = tenthsAdded (of_bool a1 + of_bool a2 + of_bool a3 + of_bool a4 + of_bool a5)"
  by (cases a1; cases a2; cases a3; cases a4; cases a5)
     (simp_all only: Let_def if_True if_False of_bool_eq add_0 add_0_right tenthsAdded_Suc
        One_nat_def add_Suc add_Suc_right, simp_all only: tenthsAdded_def funpow_0)

lemma calculateConfidence_count:
  "calculateConfidence content type md
   = min (max (if lengthTruncated md
               then dsub (tenthsAdded (of_bool (length content > 100) + of_bool (length content > 500)
                      + of_bool (type = Explain \<and> length content > 200)
                      + of_bool (type \<noteq> Explain \<and> sublist fence content)
                      + of_bool (naturalStop md))) (toDouble 0.2)
               else tenthsAdded (of_bool (length content > 100) + of_bool (length content > 500)
                      + of_bool (type = Explain \<and> length content > 200)
                      + of_bool (type \<noteq> Explain \<and> sublist fence content)
                      + of_bool (naturalStop md)))
          (toDouble 0.1)) (toDouble 1.0)"
proof (cases md)
  case None
  show ?thesis
    unfolding chain_count[symmetric]
    by (simp only: None calculateConfidence_def naturalStop_def lengthTruncated_def Let_def
          option.case if_False)
next
  case (Some m)
  show ?thesis
    unfolding chain_count[symmetric]
    by (simp only: Some calculateConfidence_def naturalStop_def lengthTruncated_def Let_def
          option.case)
qed


lemma rounding_error:
  assumes "k \<le> 5"
  shows "\<bar>min (max (if t then dsub (tenthsAdded k) (toDouble 0.2) else tenthsAdded k)
                (toDouble 0.1)) (toDouble 1.0)
          - clamp 0.1 1.0 (0.7 + real k * 0.1 - (if t then 0.2 else 0))\<bar> \<le> 1 / 2 ^ 52"
proof -
  consider "k = 0" | "k = Suc 0" | "k = Suc (Suc 0)" | "k = Suc (Suc (Suc 0))"
    | "k = Suc (Suc (Suc (Suc 0)))" | "k = Suc (Suc (Suc (Suc (Suc 0))))"
    using assms by linarith
  then show ?thesis
  proof cases
    case 1
    show ?thesis unfolding 1 tenths0 double_tenth double_fifth
      by (cases t) (simp_all add: dsub_def double_defs clamp_def)
  next
    case 2
    show ?thesis unfolding 2 tenths1 double_tenth double_fifth
      by (cases t) (simp_all add: dsub_def double_defs clamp_def)
  next
    case 3
    show ?thesis unfolding 3 tenths2 double_tenth double_fifth
      by (cases t) (simp_all add: dsub_def double_defs clamp_def)
  next
    case 4
    show ?thesis unfolding 4 tenths3 double_tenth double_fifth
      by (cases t) (simp_all add: dsub_def double_defs clamp_def)
  next
    case 5
    show ?thesis unfolding 5 tenths4 double_tenth double_fifth
      by (cases t) (simp_all add: dsub_def double_defs clamp_def)
  next
    case 6
    show ?thesis unfolding 6 tenths5 double_tenth double_fifth
      by (cases t) (simp_all add: dsub_def double_defs clamp_def)
  qed
qed

lemma tenth_if: "(if c then (0.1::real) else 0) = real (of_bool c) * 0.1"
  by simp

lemma exactConfidence_count:
  "exactConfidence content type md
   = clamp 0.1 1.0
       (0.7 + real (of_bool (length content > 100) + of_bool (length content > 500)
                      + of_bool (type = Explain \<and> length content > 200)
                      + of_bool (type \<noteq> Explain \<and> sublist fence content)
                      + of_bool (naturalStop md)) * 0.1
        - (if lengthTruncated md then 0.2 else 0))"
  unfolding exactConfidence_def tenth_if
  by (simp only: of_nat_add distrib_right add.assoc)

lemma of_bool_le_one: "of_bool b \<le> (1::nat)"
  by simp

lemma calculateConfidence_error:
  "\<bar>calculateConfidence content type md - exactConfidence content type md\<bar> \<le> 1 / 2 ^ 52"
proof -
  define k where "k = (of_bool (length content > 100) + of_bool (length content > 500)
                      + of_bool (type = Explain \<and> length content > 200)
                      + of_bool (type \<noteq> Explain \<and> sublist fence content)
                      + of_bool (naturalStop md) :: nat)"
  have "k \<le> 5"
    unfolding k_def
    using of_bool_le_one[of "length content > 100"] of_bool_le_one[of "length content > 500"]
      of_bool_le_one[of "type = Explain \<and> length content > 200"]
      of_bool_le_one[of "type \<noteq> Explain \<and> sublist fence content"]
      of_bool_le_one[of "naturalStop md"]
    by linarith
  then show ?thesis
    using rounding_error[of k "lengthTruncated md"]
    unfolding calculateConfidence_count exactConfidence_count k_def[symmetric] by simp
qed

text \<open>
  Claim C8: for every text, request type and metadata, \<open>calculateConfidence\<close> equals the
  reference computation (the start at 0.7, the five additions of 0.1 and the subtraction
  of 0.2 under their conditions in turn, the clamp into the interval from 0.1 to 1.0),
  carried out as the program does in doubles, and its result lies between 0.1 and 1.0.
  The value is the double that the additions round to: it differs from the same
  computation in exact decimals by at most \<open>1 / 2 ^ 52\<close>, and for an explanation of 101
  characters without metadata it is \<open>0.7999999999999999\<close>.
\<close>

theorem calculateConfidence_reference:
  "calculateConfidence content type md = referenceConfidence content type md
   \<and> 0.1 \<le> calculateConfidence content type md
   \<and> calculateConfidence content type md \<le> 1.0
   \<and> \<bar>calculateConfidence content type md - exactConfidence content type md\<bar> \<le> 1 / 2 ^ 52
   \<and> calculateConfidence (replicate 101 (CHR ''a'')) Explain None = 7205759403792793 / 2 ^ 53"
proof (intro conjI)
  show "calculateConfidence content type md = referenceConfidence content type md"
    by (cases md)
       (simp_all only: calculateConfidence_def referenceConfidence_def Let_def naturalStop_def
          lengthTruncated_def min_max_clamp[OF tenth_le_one] foldl_Cons foldl_Nil prod.case
          option.case if_False)
  have b: "toDouble 0.1 \<le> calculateConfidence content type md \<and>
      calculateConfidence content type md \<le> toDouble 1.0"
    unfolding calculateConfidence_def Let_def using min_max_bounds[OF tenth_le_one] by blast
  have "(0.1::real) \<le> toDouble 0.1" unfolding double_tenth by simp
  then show "0.1 \<le> calculateConfidence content type md" using b by linarith
  show "calculateConfidence content type md \<le> 1.0" using b double_one by simp
  show "\<bar>calculateConfidence content type md - exactConfidence content type md\<bar> \<le> 1 / 2 ^ 52"
    by (rule calculateConfidence_error)
  show "calculateConfidence (replicate 101 (CHR ''a'')) Explain None = 7205759403792793 / 2 ^ 53"
    by (rule confidence_of_long_explanation)
qed

subsection \<open>Transport failures\<close>

lemmas handler_defs = sendRequest_def handleOpenAIRequest_def handleClaudeRequest_def
  handleOllamaRequest_def handleLMStudioRequest_def handleVLLMRequest_def

lemma sendRequest_rejected:
  "\<exists>msg. sendRequest provider config type (Rejected e) = Inl (Error (''AI request failed: '' @ msg))"
  by (cases provider; cases e) (simp_all add: handler_defs)

lemma sendRequest_any:
  "(\<exists>response. sendRequest provider config type outcome = Inr response) \<or>
   (\<exists>msg. sendRequest provider config type outcome = Inl (Error (''AI request failed: '' @ msg)))"
proof (cases outcome)
  case (Resolved body)
  then show ?thesis by (cases provider; cases body) (simp_all add: handler_defs)
next
  case (Rejected e)
  then show ?thesis using sendRequest_rejected by simp
qed

text \<open>
  Claim C5: with the provider OpenAI, a rejection by an Axios error whose response has
  the status 401 makes \<open>sendRequest\<close> throw an error whose message contains
  \<open>API key is invalid or expired\<close>; with the provider Ollama, a rejection with the code
  \<open>ECONNREFUSED\<close> makes it throw an error whose message contains \<open>server is not running\<close>;
  for every provider every rejection makes it throw an error with a message that starts
  with \<open>AI request failed:\<close>, and whatever the outcome of the request, \<open>sendRequest\<close>
  either returns a response or throws such an error.
\<close>

theorem sendRequest_error_mapping:
  "sendRequest OPENAI config type (Rejected (AxiosError errCode (Some 401) msg))
     = Inl (Error ''AI request failed: OpenAI API key is invalid or expired'')
   \<and> sublist ''API key is invalid or expired''
         (message (Error ''AI request failed: OpenAI API key is invalid or expired''))
   \<and> sendRequest OLLAMA config type (Rejected (AxiosError (Some ''ECONNREFUSED'') errStatus msg))
     = Inl (Error ''AI request failed: Ollama server is not running. Please start Ollama and try again.'')
   \<and> sublist ''server is not running''
         (message (Error ''AI request failed: Ollama server is not running. Please start Ollama and try again.''))
   \<and> (\<exists>text. sendRequest provider config type (Rejected e)
                  = Inl (Error (''AI request failed: '' @ text)))
   \<and> ((\<exists>response. sendRequest provider config type outcome = Inr response) \<or>
      (\<exists>text. sendRequest provider config type outcome
                  = Inl (Error (''AI request failed: '' @ text))))"
proof (intro conjI)
  show "sublist ''API key is invalid or expired''
         (message (Error ''AI request failed: OpenAI API key is invalid or expired''))"
  proof -
    have "''AI request failed: OpenAI API key is invalid or expired''
        = ''AI request failed: OpenAI '' @ ''API key is invalid or expired'' @ []" by simp
    then show ?thesis unfolding message_def error.case by (metis sublist_appendI)
  qed
  show "sublist ''server is not running''
         (message (Error ''AI request failed: Ollama server is not running. Please start Ollama and try again.''))"
  proof -
    have "''AI request failed: Ollama server is not running. Please start Ollama and try again.''
        = ''AI request failed: Ollama '' @ ''server is not running''
          @ ''. Please start Ollama and try again.''" by simp
    then show ?thesis unfolding message_def error.case by (metis sublist_appendI)
  qed
  show "\<exists>text. sendRequest provider config type (Rejected e)
                  = Inl (Error (''AI request failed: '' @ text))"
    by (rule sendRequest_rejected)
  show "(\<exists>response. sendRequest provider config type outcome = Inr response) \<or>
      (\<exists>text. sendRequest provider config type outcome
                  = Inl (Error (''AI request failed: '' @ text)))"
    by (rule sendRequest_any)
qed (simp_all add: handler_defs)

end
